theory Spec2Isabelle
  imports Main
begin

section \<open>Status values shared by the catalog, storage and query code\<close>

text \<open>
  The error codes that the modelled functions return. A \<open>Status\<close> is either OK or an
  error code (the message text is left out). \<open>OtherError\<close> stands for a status that an
  external collaborator (a plan stage, the storage engine) hands back.
\<close>

datatype ErrorCodes =
    BadValue | IllegalOperation | NamespaceExists | NamespaceNotFound | FailedToParse
  | NonExistentPath | InvalidPath | FileNotOpen | FileStreamFailed | OperationFailed
  | FileRenameFailed | OtherError nat

datatype Status = StatusOK | StatusError ErrorCodes

text \<open>
  A failed \<open>invariant\<close>, \<open>verify\<close>, \<open>fassert\<close> or \<open>MONGO_UNREACHABLE\<close> terminates the
  process; \<open>uassert\<close> and \<open>massert\<close> throw. Both are results of their own, carrying
  the assertion's number where it has one.
\<close>

datatype Abort =
    InvariantFailure | VerifyFailure | Unreachable | Fassert nat | AssertionException nat
  | BackgroundOperationInProgress

section \<open>Plan executor: plan selection (plan\_executor.cpp)\<close>

datatype StageType =
    STAGE_CACHED_PLAN | STAGE_COLLSCAN | STAGE_FETCH | STAGE_MULTI_PLAN
  | STAGE_PIPELINE_PROXY | STAGE_SUBPLAN | STAGE_OTHER nat

text \<open>
  A stage of the tree: its type, an identity for the node (the address of the object in
  the source) and its children in order.
\<close>

datatype PlanStage = PlanStage (stageType: StageType) (stageId: nat) (getChildren: "PlanStage list")

datatype ExecState = kUsable | kSaved | kDetached | kDisposed

text \<open>
  \<open>getStageByType\<close>: the root when its type matches, otherwise the first non-null
  result among the children, in order; \<open>None\<close> is the source's NULL.
\<close>

fun getStageByType :: "PlanStage \<Rightarrow> StageType \<Rightarrow> PlanStage option"
  and getStageByType_children :: "PlanStage list \<Rightarrow> StageType \<Rightarrow> PlanStage option" where
  "getStageByType (PlanStage ty ident children) type =
     (if ty = type then Some (PlanStage ty ident children)
      else getStageByType_children children type)"
| "getStageByType_children [] type = None"
| "getStageByType_children (c # cs) type =
     (case getStageByType c type of
        Some result \<Rightarrow> Some result
      | None \<Rightarrow> getStageByType_children cs type)"

text \<open>
  \<open>PlanExecutor::pickBestPlan\<close>. The three stage classes' own \<open>pickBestPlan\<close> are
  outside this file: \<open>stagePick\<close> gives the status each returns. The result is the
  status returned together with the stages whose \<open>pickBestPlan\<close> was invoked.
\<close>

definition pickBestPlan ::
  "ExecState \<Rightarrow> (PlanStage \<Rightarrow> Status) \<Rightarrow> PlanStage \<Rightarrow> Abort + (Status \<times> PlanStage list)" where
  "pickBestPlan currentState stagePick root =
     (if currentState \<noteq> kUsable then Inl InvariantFailure
      else case getStageByType root STAGE_SUBPLAN of
        Some subplan \<Rightarrow> Inr (stagePick subplan, [subplan])
      | None \<Rightarrow>
         (case getStageByType root STAGE_MULTI_PLAN of
            Some mps \<Rightarrow> Inr (stagePick mps, [mps])
          | None \<Rightarrow>
             (case getStageByType root STAGE_CACHED_PLAN of
                Some cachedPlan \<Rightarrow> Inr (stagePick cachedPlan, [cachedPlan])
              | None \<Rightarrow> Inr (StatusOK, []))))"

text \<open>The stages of a tree in depth-first, parent-before-children, left-to-right order.\<close>

fun preorder :: "PlanStage \<Rightarrow> PlanStage list"
  and preorder_children :: "PlanStage list \<Rightarrow> PlanStage list" where
  "preorder (PlanStage ty ident children) =
     PlanStage ty ident children # preorder_children children"
| "preorder_children [] = []"
| "preorder_children (c # cs) = preorder c @ preorder_children cs"

definition firstOfType :: "PlanStage \<Rightarrow> StageType \<Rightarrow> PlanStage option" where
  "firstOfType root type = find (\<lambda>s. stageType s = type) (preorder root)"

section \<open>BSON values\<close>

text \<open>
  Modelled from the spec: the BSON library (\<open>BSONObj\<close>, \<open>BSONElement\<close>, the \<open>BSON\<close>
  builder macro and \<open>dotted_path_support\<close>) is declared outside the files at hand. The
  spec describes documents such as \<open>{_id:1}\<close> and \<open>{engine: name, options: {...}}\<close>;
  a document is a list of named values in field order, a lookup takes the first field of the
  name, and a missing field is the end-of-object element. Doubles stand for the integral
  values they hold (no fractions, NaN or infinities) and arrays are left out.
\<close>

datatype BSONValue =
    EOO
  | NumberDouble int
  | BSONString string
  | Object "(string \<times> BSONValue) list"
  | Bool bool
  | jstNULL
  | NumberInt int
  | NumberLong int

type_synonym BSONElement = "string \<times> BSONValue"
type_synonym BSONObj = "(string \<times> BSONValue) list"

definition eooElement :: BSONElement where
  "eooElement = ([], EOO)"

definition fieldName :: "BSONElement \<Rightarrow> string" where
  "fieldName e = fst e"

definition eoo :: "BSONElement \<Rightarrow> bool" where
  "eoo e = (snd e = EOO)"

text \<open>A C++ conversion to \<open>int\<close> keeps the low 32 bits, read as a signed value.\<close>

definition toInt32 :: "int \<Rightarrow> int" where
  "toInt32 v = (v + 2147483648) mod 4294967296 - 2147483648"

fun isNumber :: "BSONElement \<Rightarrow> bool" where
  "isNumber (n, NumberDouble d) = True"
| "isNumber (n, NumberInt i) = True"
| "isNumber (n, NumberLong l) = True"
| "isNumber (n, v) = False"

fun numberInt :: "BSONElement \<Rightarrow> int" where
  "numberInt (n, NumberDouble d) = toInt32 d"
| "numberInt (n, NumberInt i) = i"
| "numberInt (n, NumberLong l) = toInt32 l"
| "numberInt (n, v) = 0"

fun trueValue :: "BSONElement \<Rightarrow> bool" where
  "trueValue (n, NumberDouble d) = (d \<noteq> 0)"
| "trueValue (n, NumberInt i) = (i \<noteq> 0)"
| "trueValue (n, NumberLong l) = (l \<noteq> 0)"
| "trueValue (n, Bool b) = b"
| "trueValue (n, EOO) = False"
| "trueValue (n, jstNULL) = False"
| "trueValue (n, v) = True"

definition getField :: "BSONObj \<Rightarrow> string \<Rightarrow> BSONElement" where
  "getField obj name = (case map_of obj name of Some v \<Rightarrow> (name, v) | None \<Rightarrow> eooElement)"

definition getObjectField :: "BSONObj \<Rightarrow> string \<Rightarrow> BSONObj" where
  "getObjectField obj name =
     (case snd (getField obj name) of Object fields \<Rightarrow> fields | _ \<Rightarrow> [])"

definition getStringField :: "BSONObj \<Rightarrow> string \<Rightarrow> string" where
  "getStringField obj name =
     (case snd (getField obj name) of BSONString str \<Rightarrow> str | _ \<Rightarrow> [])"

text \<open>\<open>BSONObjIterator::next\<close>: the next element and the rest, the EOO element at the end.\<close>

definition iter_next :: "BSONObj \<Rightarrow> BSONElement \<times> BSONObj" where
  "iter_next i = (case i of [] \<Rightarrow> (eooElement, []) | e # rest \<Rightarrow> (e, rest))"

section \<open>Index descriptors (index\_descriptor.h)\<close>

record IndexDescriptor =
  accessMethodName :: string
  infoObj :: BSONObj
  numFields :: nat
  keyPattern :: BSONObj
  indexName :: string
  parentNS :: string
  indexNamespace :: string
  isIdIndex :: bool
  isSparse :: bool
  unique :: bool
  isPartial :: bool
  version :: int

definition kKeyPatternFieldName :: string where "kKeyPatternFieldName = ''key''"
definition kIndexNameFieldName :: string where "kIndexNameFieldName = ''name''"
definition kNamespaceFieldName :: string where "kNamespaceFieldName = ''ns''"
definition kSparseFieldName :: string where "kSparseFieldName = ''sparse''"
definition kUniqueFieldName :: string where "kUniqueFieldName = ''unique''"
definition kPartialFilterExprFieldName :: string where
  "kPartialFilterExprFieldName = ''partialFilterExpression''"
definition kIndexVersionFieldName :: string where "kIndexVersionFieldName = ''v''"

definition isIdIndexPattern :: "BSONObj \<Rightarrow> bool" where
  "isIdIndexPattern pattern =
     (let (e, i) = iter_next pattern in
      if \<not> (fieldName e = ''_id'' \<and> (numberInt e = 1 \<or> numberInt e = -1)) then False
      else eoo (fst (iter_next i)))"

definition makeIndexNamespace :: "string \<Rightarrow> string \<Rightarrow> string" where
  "makeIndexNamespace ns name = ns @ ''.$'' @ name"

text \<open>The constructor \<open>IndexDescriptor(collection, accessMethodName, infoObj)\<close>.\<close>

definition newIndexDescriptor :: "string \<Rightarrow> BSONObj \<Rightarrow> IndexDescriptor" where
  "newIndexDescriptor accessMethod info =
     (let keyPat = getObjectField info kKeyPatternFieldName;
          name = getStringField info kIndexNameFieldName;
          parent = getStringField info kNamespaceFieldName;
          idIndex = isIdIndexPattern keyPat;
          e = getField info kIndexVersionFieldName
      in \<lparr> accessMethodName = accessMethod,
           infoObj = info,
           numFields = length (getObjectField info kKeyPatternFieldName),
           keyPattern = keyPat,
           indexName = name,
           parentNS = parent,
           indexNamespace = makeIndexNamespace parent name,
           isIdIndex = idIndex,
           isSparse = trueValue (getField info kSparseFieldName),
           unique = (idIndex \<or> trueValue (getField info kUniqueFieldName)),
           isPartial = (\<not> eoo (getField info kPartialFilterExprFieldName)),
           version = (if isNumber e then numberInt e else 0) \<rparr>)"

section \<open>The database catalog (database\_impl.cpp)\<close>

text \<open>
  An optime is a timestamp and a term; the null optime has the null timestamp. The
  type's declaration is outside the files at hand.
\<close>

type_synonym OpTime = "nat \<times> int"

definition isNull :: "OpTime \<Rightarrow> bool" where
  "isNull t = (fst t = 0)"

text \<open>
  \<open>NamespaceString\<close> is declared outside the files at hand; what the catalog code asks
  of a namespace is taken as a parameter: its database part, the system-collection tests,
  whether it is a normal namespace (no dollar sign), the drop-pending namespace for an
  optime (and for the maximal optime), and the length check of a rename target against
  the length of an index name.
\<close>

record NsOps =
  db_of :: "string \<Rightarrow> string"
  isSystem :: "string \<Rightarrow> bool"
  isSystemDotProfile :: "string \<Rightarrow> bool"
  isSystemDotViews :: "string \<Rightarrow> bool"
  isHealthlog :: "string \<Rightarrow> bool"
  isSessionsNamespace :: "string \<Rightarrow> bool"
  isSystemKeys :: "string \<Rightarrow> bool"
  normal :: "string \<Rightarrow> bool"
  makeDropPendingNamespace :: "string \<Rightarrow> OpTime \<Rightarrow> string"
  OpTime_max :: OpTime
  checkLengthForRename :: "string \<Rightarrow> nat \<Rightarrow> bool"

text \<open>
  What the operation context and the collaborators answer during one call: the lock
  state, the replication coordinator, the op observer (the optime it returns from
  \<open>onDropCollection\<close>), background operations, and the statuses of the index catalog
  and of the storage engine's catalog entry.
\<close>

record OpCtx =
  isDbLockedForModeX :: bool
  writesAreReplicated :: bool
  isOplogDisabledFor :: "string \<Rightarrow> bool"
  isMasterSlave :: bool
  onDropCollectionOpTime :: OpTime
  inProgForNs :: "string \<Rightarrow> bool"
  enableCollectionUUIDs :: bool
  dropIndexStatus :: "string \<Rightarrow> Status"
  dbEntryDropCollection :: Status
  dbEntryRenameCollection :: Status

record Collection =
  uuid :: "nat option"
  indexes :: "IndexDescriptor list"
  numIndexesInProgress :: nat

datatype Event =
    EnsureNamespaceInCache string nat
  | AuditDropCollection string
  | AuditRenameCollection string string
  | TopCollectionDropped string
  | DropIndex string string
  | OnDropIndex string string
  | DropAllIndexes string
  | OnDropCollection string "nat option"
  | RegisterRemoveCollectionChange string
  | RegisterAddCollectionChange string
  | InvalidateAllCursors string bool
  | DbEntryDropCollection string
  | DbEntryRenameCollection string string bool
  | RegisterUUID nat string
  | AddDropPendingNamespace OpTime string

text \<open>
  The database: its name, the in-memory collection map, the profiling level, the
  storage engine's catalog entries, the drop-pending reaper's list, and the calls made
  on other subsystems so far, in order.
\<close>

record Database =
  db_name :: string
  collections :: "string \<rightharpoonup> Collection"
  profile :: int
  dbEntry :: "string \<rightharpoonup> Collection"
  dropPendingNamespaces :: "(OpTime \<times> string) list"
  events :: "Event list"

definition emit :: "Event \<Rightarrow> Database \<Rightarrow> Database" where
  "emit e db = db\<lparr>events := events db @ [e]\<rparr>"

text \<open>\<open>getCollection(opCtx, nss)\<close>: a lookup; on a hit the namespace cache is refreshed.\<close>

definition getCollection :: "OpCtx \<Rightarrow> Database \<Rightarrow> string \<Rightarrow> Collection option \<times> Database" where
  "getCollection opCtx db nss =
     (case collections db nss of
        Some found \<Rightarrow>
          (Some found,
           if enableCollectionUUIDs opCtx
           then (case uuid found of
                   Some u \<Rightarrow> emit (EnsureNamespaceInCache nss u) db
                 | None \<Rightarrow> db)
           else db)
      | None \<Rightarrow> (None, db))"

text \<open>\<open>getCollection(opCtx, StringData ns)\<close>: the same after checking the database part.\<close>

definition getCollection_ns ::
  "NsOps \<Rightarrow> OpCtx \<Rightarrow> Database \<Rightarrow> string \<Rightarrow> Abort + (Collection option \<times> Database)" where
  "getCollection_ns ops opCtx db ns =
     (if db_name db \<noteq> db_of ops ns then Inl InvariantFailure
      else Inr (getCollection opCtx db ns))"

definition clearCollectionCache ::
  "NsOps \<Rightarrow> Database \<Rightarrow> string \<Rightarrow> bool \<Rightarrow> Abort + Database" where
  "clearCollectionCache ops db fullns collectionGoingAway =
     (if db_name db \<noteq> db_of ops fullns then Inl VerifyFailure
      else case collections db fullns of
        None \<Rightarrow> Inr db
      | Some c \<Rightarrow>
          Inr ((emit (InvalidateAllCursors fullns collectionGoingAway)
                 (emit (RegisterRemoveCollectionChange fullns) db))
               \<lparr>collections := (collections db)(fullns := None)\<rparr>))"

text \<open>
  The index catalog of a collection lives in its catalog entry; a change of the index
  list is seen through the in-memory collection and the storage entry alike.
\<close>

definition setIndexes :: "string \<Rightarrow> IndexDescriptor list \<Rightarrow> Database \<Rightarrow> Database" where
  "setIndexes ns ixs db =
     db\<lparr>collections := (case collections db ns of
                           None \<Rightarrow> collections db
                         | Some c \<Rightarrow> (collections db)(ns \<mapsto> c\<lparr>indexes := ixs\<rparr>)),
        dbEntry := (case dbEntry db ns of
                      None \<Rightarrow> dbEntry db
                    | Some c \<Rightarrow> (dbEntry db)(ns \<mapsto> c\<lparr>indexes := ixs\<rparr>))\<rparr>"

definition finishDropCollection ::
  "NsOps \<Rightarrow> OpCtx \<Rightarrow> Database \<Rightarrow> string \<Rightarrow> Abort + (Status \<times> Database)" where
  "finishDropCollection ops opCtx db fullns =
     (let db1 = emit (DropAllIndexes fullns) (setIndexes fullns [] db) in
      case clearCollectionCache ops db1 fullns True of
        Inl a \<Rightarrow> Inl a
      | Inr db2 \<Rightarrow>
          (let db3 = emit (DbEntryDropCollection fullns) db2 in
           case dbEntryDropCollection opCtx of
             StatusOK \<Rightarrow> Inr (StatusOK, db3\<lparr>dbEntry := (dbEntry db3)(fullns := None)\<rparr>)
           | StatusError e \<Rightarrow> Inr (StatusError e, db3)))"

fun clearIndexCaches :: "NsOps \<Rightarrow> Database \<Rightarrow> IndexDescriptor list \<Rightarrow> Abort + Database" where
  "clearIndexCaches ops db [] = Inr db"
| "clearIndexCaches ops db (desc # rest) =
     (case clearCollectionCache ops db (indexNamespace desc) True of
        Inl a \<Rightarrow> Inl a
      | Inr db1 \<Rightarrow> clearIndexCaches ops db1 rest)"

text \<open>
  \<open>_getOrCreateCollectionInstance\<close>: the collection of the map if there is one, otherwise
  a new instance over the storage engine's catalog entry, which has to exist.
\<close>

definition getOrCreateCollectionInstance ::
  "OpCtx \<Rightarrow> Database \<Rightarrow> string \<Rightarrow> Abort + (Collection \<times> Database)" where
  "getOrCreateCollectionInstance opCtx db nss =
     (case getCollection opCtx db nss of
        (Some collection, db1) \<Rightarrow> Inr (collection, db1)
      | (None, db1) \<Rightarrow>
          (case dbEntry db1 nss of
             None \<Rightarrow> Inl InvariantFailure
           | Some cce \<Rightarrow>
               Inr (cce, case uuid cce of
                           Some u \<Rightarrow> emit (RegisterUUID u nss) db1
                         | None \<Rightarrow> db1)))"

definition renameCollection ::
  "NsOps \<Rightarrow> OpCtx \<Rightarrow> Database \<Rightarrow> string \<Rightarrow> string \<Rightarrow> bool \<Rightarrow> Abort + (Status \<times> Database)" where
  "renameCollection ops opCtx db fromNS toNS stayTemp =
     (let db0 = emit (AuditRenameCollection fromNS toNS) db in
      if \<not> isDbLockedForModeX opCtx then Inl InvariantFailure
      else if inProgForNs opCtx fromNS then Inl BackgroundOperationInProgress
      else if inProgForNs opCtx toNS then Inl BackgroundOperationInProgress
      else case getCollection_ns ops opCtx db0 fromNS of
        Inl a \<Rightarrow> Inl a
      | Inr (None, db1) \<Rightarrow> Inr (StatusError NamespaceNotFound, db1)
      | Inr (Some coll, db1) \<Rightarrow>
         (case clearIndexCaches ops db1 (indexes coll) of
            Inl a \<Rightarrow> Inl a
          | Inr db2 \<Rightarrow>
             (case clearCollectionCache ops db2 fromNS True of
                Inl a \<Rightarrow> Inl a
              | Inr db3 \<Rightarrow>
                 (case clearCollectionCache ops db3 toNS False of
                    Inl a \<Rightarrow> Inl a
                  | Inr db4 \<Rightarrow>
                     (let db5 = emit (DbEntryRenameCollection fromNS toNS stayTemp)
                                  (emit (TopCollectionDropped fromNS) db4);
                          s = dbEntryRenameCollection opCtx;
                          db6 = (case s of
                                   StatusOK \<Rightarrow>
                                     db5\<lparr>dbEntry := (dbEntry db5)(fromNS := None,
                                                                   toNS := dbEntry db5 fromNS)\<rparr>
                                 | StatusError e \<Rightarrow> db5);
                          db7 = emit (RegisterAddCollectionChange toNS) db6
                      in case getOrCreateCollectionInstance opCtx db7 toNS of
                           Inl a \<Rightarrow> Inl a
                         | Inr (c, db8) \<Rightarrow>
                             Inr (s, db8\<lparr>collections := (collections db8)(toNS \<mapsto> c)\<rparr>))))))"

text \<open>
  The loop over \<open>indexesToDrop\<close>: each index is dropped from the index catalog (a
  failure is fatal, 40463) and the drop is handed to the op observer.
\<close>

fun dropIndexes ::
  "OpCtx \<Rightarrow> Database \<Rightarrow> string \<Rightarrow> IndexDescriptor list \<Rightarrow> Abort + Database" where
  "dropIndexes opCtx db fullns [] = Inr db"
| "dropIndexes opCtx db fullns (index # rest) =
     (case dropIndexStatus opCtx (indexName index) of
        StatusError e \<Rightarrow> Inl (Fassert 40463)
      | StatusOK \<Rightarrow>
          (let remaining = (case collections db fullns of
                              None \<Rightarrow> []
                            | Some c \<Rightarrow> filter (\<lambda>i. indexName i \<noteq> indexName index) (indexes c));
               db1 = emit (OnDropIndex fullns (indexName index))
                       (emit (DropIndex fullns (indexName index))
                          (setIndexes fullns remaining db))
           in dropIndexes opCtx db1 fullns rest))"

definition indexesToDrop :: "NsOps \<Rightarrow> string \<Rightarrow> Collection \<Rightarrow> IndexDescriptor list" where
  "indexesToDrop ops fullns collection =
     (let longDpns = makeDropPendingNamespace ops fullns (OpTime_max ops) in
      filter (\<lambda>index. \<not> checkLengthForRename ops longDpns (length (indexName index)))
        (indexes collection))"

text \<open>The tail of the two-phase drop: rename to the drop-pending namespace, tell the reaper.\<close>

definition renameToDropPending ::
  "NsOps \<Rightarrow> OpCtx \<Rightarrow> Database \<Rightarrow> string \<Rightarrow> OpTime \<Rightarrow> Abort + (Status \<times> Database)" where
  "renameToDropPending ops opCtx db fullns dropOpTime =
     (let dpns = makeDropPendingNamespace ops fullns dropOpTime in
      case renameCollection ops opCtx db fullns dpns True of
        Inl a \<Rightarrow> Inl a
      | Inr (StatusError e, db1) \<Rightarrow> Inl (Fassert 40464)
      | Inr (StatusOK, db1) \<Rightarrow>
          Inr (StatusOK,
               (emit (AddDropPendingNamespace dropOpTime dpns) db1)
                 \<lparr>dropPendingNamespaces := dropPendingNamespaces db1 @ [(dropOpTime, dpns)]\<rparr>))"

definition dropCollectionEvenIfSystem ::
  "NsOps \<Rightarrow> OpCtx \<Rightarrow> Database \<Rightarrow> string \<Rightarrow> OpTime \<Rightarrow> Abort + (Status \<times> Database)" where
  "dropCollectionEvenIfSystem ops opCtx db fullns dropOpTime =
     (if \<not> isDbLockedForModeX opCtx then Inl InvariantFailure
      else if \<not> isNull dropOpTime \<and> writesAreReplicated opCtx then Inr (StatusError BadValue, db)
      else case getCollection opCtx db fullns of
        (None, db1) \<Rightarrow> Inr (StatusOK, db1)
      | (Some collection, db1) \<Rightarrow>
          if \<not> normal ops fullns then Inl (AssertionException 17320)
          else if inProgForNs opCtx fullns then Inl BackgroundOperationInProgress
          else if numIndexesInProgress collection \<noteq> 0 then Inl (AssertionException 40461)
          else
            (let db2 = emit (TopCollectionDropped fullns) (emit (AuditDropCollection fullns) db1) in
             if (isNull dropOpTime \<and> isOplogDisabledFor opCtx fullns) \<or> isMasterSlave opCtx
             then (case finishDropCollection ops opCtx db2 fullns of
                     Inl a \<Rightarrow> Inl a
                   | Inr (StatusError e, db3) \<Rightarrow> Inr (StatusError e, db3)
                   | Inr (StatusOK, db3) \<Rightarrow>
                       Inr (StatusOK, emit (OnDropCollection fullns (uuid collection)) db3))
             else if isNull dropOpTime
             then (case dropIndexes opCtx db2 fullns (indexesToDrop ops fullns collection) of
                     Inl a \<Rightarrow> Inl a
                   | Inr db3 \<Rightarrow>
                      (let db4 = emit (OnDropCollection fullns (uuid collection)) db3;
                           dropOpTime' = onDropCollectionOpTime opCtx
                       in if isNull dropOpTime'
                          then (case finishDropCollection ops opCtx db4 fullns of
                                  Inl a \<Rightarrow> Inl a
                                | Inr (StatusError e, db5) \<Rightarrow> Inl (Fassert 40462)
                                | Inr (StatusOK, db5) \<Rightarrow> Inr (StatusOK, db5))
                          else renameToDropPending ops opCtx db4 fullns dropOpTime'))
             else (let db3 = emit (OnDropCollection fullns (uuid collection)) db2;
                       opTime = onDropCollectionOpTime opCtx
                   in if \<not> isNull opTime then Inl (Fassert 40468)
                      else renameToDropPending ops opCtx db3 fullns dropOpTime)))"

definition dropCollection ::
  "NsOps \<Rightarrow> OpCtx \<Rightarrow> Database \<Rightarrow> string \<Rightarrow> OpTime \<Rightarrow> Abort + (Status \<times> Database)" where
  "dropCollection ops opCtx db fullns dropOpTime =
     (case getCollection_ns ops opCtx db fullns of
        Inl a \<Rightarrow> Inl a
      | Inr (None, db1) \<Rightarrow> Inr (StatusOK, db1)
      | Inr (Some c, db1) \<Rightarrow>
          if db_of ops fullns \<noteq> db_name db1 then Inl VerifyFailure
          else if isSystem ops fullns
          then (if isSystemDotProfile ops fullns
                then (if profile db1 \<noteq> 0 then Inr (StatusError IllegalOperation, db1)
                      else dropCollectionEvenIfSystem ops opCtx db1 fullns dropOpTime)
                else if \<not> (isSystemDotViews ops fullns \<or> isHealthlog ops fullns \<or>
                            isSessionsNamespace ops fullns \<or> isSystemKeys ops fullns)
                then Inr (StatusError IllegalOperation, db1)
                else dropCollectionEvenIfSystem ops opCtx db1 fullns dropOpTime)
          else dropCollectionEvenIfSystem ops opCtx db1 fullns dropOpTime)"

text \<open>
  A concrete namespace reading and a concrete database, used to run the catalog functions
  on explicit inputs: the database part of a namespace ends at the first dot, system
  collections start with \<open>system.\<close>, and a drop-pending namespace puts
  \<open>system.drop.\<close> and one \<open>i\<close> per tick of the timestamp before the collection name.
\<close>

definition coll_of :: "string \<Rightarrow> string" where
  "coll_of ns = drop (Suc (length (takeWhile (\<lambda>c. c \<noteq> CHR ''.'') ns))) ns"

definition sampleNsOps :: NsOps where
  "sampleNsOps =
     \<lparr> db_of = takeWhile (\<lambda>c. c \<noteq> CHR ''.''),
       isSystem = (\<lambda>ns. take 7 (coll_of ns) = ''system.''),
       isSystemDotProfile = (\<lambda>ns. coll_of ns = ''system.profile''),
       isSystemDotViews = (\<lambda>ns. coll_of ns = ''system.views''),
       isHealthlog = (\<lambda>ns. ns = ''local.system.healthlog''),
       isSessionsNamespace = (\<lambda>ns. ns = ''config.system.sessions''),
       isSystemKeys = (\<lambda>ns. ns = ''admin.system.keys''),
       normal = (\<lambda>ns. CHR ''$'' \<notin> set ns),
       makeDropPendingNamespace =
         (\<lambda>ns t. takeWhile (\<lambda>c. c \<noteq> CHR ''.'') ns @ ''.system.drop.'' @
                  replicate (fst t) CHR ''i'' @ ''.'' @ coll_of ns),
       OpTime_max = (9, 9),
       checkLengthForRename = (\<lambda>ns n. length ns + 2 + n \<le> 40) \<rparr>"

definition sampleOpCtx :: OpCtx where
  "sampleOpCtx =
     \<lparr> isDbLockedForModeX = True,
       writesAreReplicated = True,
       isOplogDisabledFor = (\<lambda>ns. False),
       isMasterSlave = False,
       onDropCollectionOpTime = (5, 1),
       inProgForNs = (\<lambda>ns. False),
       enableCollectionUUIDs = True,
       dropIndexStatus = (\<lambda>n. StatusOK),
       dbEntryDropCollection = StatusOK,
       dbEntryRenameCollection = StatusOK \<rparr>"

definition sampleCollection :: Collection where
  "sampleCollection =
     \<lparr> uuid = Some 7,
       indexes = [newIndexDescriptor ''btree''
                    [(''key'', Object [(''_id'', NumberInt 1)]),
                     (''name'', BSONString ''_id_''), (''ns'', BSONString ''db.c'')],
                  newIndexDescriptor ''btree''
                    [(''key'', Object [(''a'', NumberInt 1)]),
                     (''name'', BSONString ''a_long_index_name''),
                     (''ns'', BSONString ''db.c'')]],
       numIndexesInProgress = 0 \<rparr>"

definition sampleDatabase :: Database where
  "sampleDatabase =
     \<lparr> db_name = ''db'',
       collections = [''db.c'' \<mapsto> sampleCollection],
       profile = 0,
       dbEntry = [''db.c'' \<mapsto> sampleCollection],
       dropPendingNamespaces = [],
       events = [] \<rparr>"

text \<open>
  The steps of a drop that reach the index catalog, the op observer, the storage engine
  or the drop-pending reaper, in the order they were made.
\<close>

fun storageOrReplEvent :: "Event \<Rightarrow> bool" where
  "storageOrReplEvent (DropIndex ns n) = True"
| "storageOrReplEvent (OnDropIndex ns n) = True"
| "storageOrReplEvent (OnDropCollection ns u) = True"
| "storageOrReplEvent (DbEntryDropCollection ns) = True"
| "storageOrReplEvent (DbEntryRenameCollection f t s) = True"
| "storageOrReplEvent (AddDropPendingNamespace t ns) = True"
| "storageOrReplEvent e = False"

definition dropSteps :: "Database \<Rightarrow> Event list" where
  "dropSteps db = filter storageOrReplEvent (events db)"

definition indexDropSteps :: "string \<Rightarrow> IndexDescriptor list \<Rightarrow> Event list" where
  "indexDropSteps ns ixs =
     concat (map (\<lambda>i. [DropIndex ns (indexName i), OnDropIndex ns (indexName i)]) ixs)"

text \<open>
  What a successful drop of an existing collection has done, in the words of the spec:
  without an oplog for the namespace, or under master/slave, the storage entry is dropped
  and the drop is logged; otherwise the indexes whose names are too long are dropped, the
  drop is logged, and then either the op observer gave no optime and the storage entry is
  dropped, or the collection is renamed to the drop-pending namespace of the optime and
  that namespace is handed to the reaper.
\<close>

definition dropOutcome ::
  "NsOps \<Rightarrow> OpCtx \<Rightarrow> string \<Rightarrow> Collection \<Rightarrow> Database \<Rightarrow> Database \<Rightarrow> bool" where
  "dropOutcome ops opCtx ns collection db db' =
     (let T = onDropCollectionOpTime opCtx;
          dpns = makeDropPendingNamespace ops ns T;
          early = indexDropSteps ns (indexesToDrop ops ns collection);
          logged = OnDropCollection ns (uuid collection)
      in if isOplogDisabledFor opCtx ns \<or> isMasterSlave opCtx
         then dropSteps db' = dropSteps db @ [DbEntryDropCollection ns, logged]
              \<and> dropPendingNamespaces db' = dropPendingNamespaces db
              \<and> collections db' ns = None \<and> dbEntry db' ns = None
         else if isNull T
         then dropSteps db' = dropSteps db @ early @ [logged, DbEntryDropCollection ns]
              \<and> dropPendingNamespaces db' = dropPendingNamespaces db
              \<and> collections db' ns = None \<and> dbEntry db' ns = None
         else dropSteps db' =
                dropSteps db @ early @
                  [logged, DbEntryRenameCollection ns dpns True, AddDropPendingNamespace T dpns]
              \<and> dropPendingNamespaces db' = dropPendingNamespaces db @ [(T, dpns)]
              \<and> collections db' dpns \<noteq> None
              \<and> (dpns = ns \<or> (collections db' ns = None \<and> dbEntry db' ns = None)))"

section \<open>Unique temporary namespaces (database\_impl.cpp)\<close>













section \<open>The storage engine metadata file (storage\_engine\_metadata.cpp)\<close>

text \<open>
  Modelled from the spec: \<open>dotted_path_support::extractElementAtPath\<close> is outside the
  files at hand. The spec has the file record \<open>{engine: name, options: {...}}\<close> under
  \<open>storage\<close>, read by the dotted paths \<open>storage.engine\<close> and \<open>storage.options\<close>: a
  path names a field directly, or its part before the first dot names an embedded
  object in which the rest is looked up.
\<close>

definition find_dot :: "string \<Rightarrow> nat option" where
  "find_dot path =
     (if CHR ''.'' \<in> set path then Some (length (takeWhile (\<lambda>c. c \<noteq> CHR ''.'') path))
      else None)"

function extractElementAtPath :: "BSONObj \<Rightarrow> string \<Rightarrow> BSONElement" where
  "extractElementAtPath obj path =
     (let e = getField obj path in
      if eoo e
      then (case find_dot path of
              Some dot_offset \<Rightarrow>
                (let sub = getObjectField obj (take dot_offset path) in
                 if sub = [] then eooElement
                 else extractElementAtPath sub (drop (dot_offset + 1) path))
            | None \<Rightarrow> e)
      else e)"
  by pat_completeness auto
termination
  by (relation "measure (\<lambda>(obj, path). length path)")
     (auto simp: find_dot_def split: if_splits dest!: length_pos_if_in_set)

text \<open>
  A \<open>BSONObj\<close> is a view of its bytes: \<open>write\<close> puts \<open>objdata()\<close> into the file and
  \<open>read\<close> builds the object over the bytes read, so a file holds a document, nothing,
  or bytes that are no document. The file system maps paths to file contents.
\<close>

datatype FileData = BsonData BSONObj | EmptyFile | MalformedData

type_synonym FileSystem = "string \<rightharpoonup> FileData"

text \<open>What the operating system answers to the file operations of one call.\<close>

record FileIO =
  fileSizeKnown :: bool
  ifstreamOpens :: bool
  ifstreamReads :: bool
  ofstreamOpens :: bool
  ofstreamWrites :: bool
  fsyncFileOpens :: bool
  renameSucceeds :: bool
  flushMyDirectorySucceeds :: bool

record StorageEngineMetadata =
  dbpath :: string
  storageEngine :: string
  storageEngineOptions :: BSONObj

definition kMetadataBasename :: string where
  "kMetadataBasename = ''storage.bson''"

text \<open>\<open>boost::filesystem::path(dir) / name\<close>.\<close>

definition path_append :: "string \<Rightarrow> string \<Rightarrow> string" where
  "path_append dir name =
     (if dir = [] then name
      else if last dir = CHR ''/'' then dir @ name
      else dir @ ''/'' @ name)"

definition reset :: "StorageEngineMetadata \<Rightarrow> StorageEngineMetadata" where
  "reset m = m\<lparr>storageEngine := [], storageEngineOptions := []\<rparr>"

definition metadata_read ::
  "FileIO \<Rightarrow> FileSystem \<Rightarrow> StorageEngineMetadata \<Rightarrow> Status \<times> StorageEngineMetadata" where
  "metadata_read io fs m0 =
     (let m = reset m0;
          metadataPath = path_append (dbpath m) kMetadataBasename
      in case fs metadataPath of
           None \<Rightarrow> (StatusError NonExistentPath, m)
         | Some contents \<Rightarrow>
             if contents = EmptyFile then (StatusError InvalidPath, m)
             else if \<not> fileSizeKnown io then (StatusError InvalidPath, m)
             else if \<not> ifstreamOpens io then (StatusError FileNotOpen, m)
             else if \<not> ifstreamReads io then (StatusError FileStreamFailed, m)
             else (case contents of
                     BsonData obj \<Rightarrow>
                       (let storageEngineElement = extractElementAtPath obj ''storage.engine'' in
                        case snd storageEngineElement of
                          BSONString engine \<Rightarrow>
                            if engine = [] then (StatusError FailedToParse, m)
                            else
                              (let m1 = m\<lparr>storageEngine := engine\<rparr>;
                                   storageEngineOptionsElement =
                                     extractElementAtPath obj ''storage.options''
                               in if \<not> eoo storageEngineOptionsElement
                                  then (case snd storageEngineOptionsElement of
                                          Object options \<Rightarrow>
                                            (StatusOK, m1\<lparr>storageEngineOptions := options\<rparr>)
                                        | _ \<Rightarrow> (StatusError FailedToParse, m1))
                                  else (StatusOK, m1))
                        | _ \<Rightarrow> (StatusError FailedToParse, m))
                   | _ \<Rightarrow> (StatusError FailedToParse, m)))"

text \<open>
  The file operations that \<open>write\<close> attempts, in order: opening a file for output
  (which creates or empties it), writing a document's bytes to it, \<open>fsyncFile\<close>,
  \<open>boost::filesystem::rename\<close> and \<open>flushMyDirectory\<close>.
\<close>

datatype FileOp =
    OpenForOutput string
  | WriteData string BSONObj
  | FsyncFile string
  | RenameFile string string
  | FlushMyDirectory string

definition metadata_write ::
  "FileIO \<Rightarrow> FileSystem \<Rightarrow> StorageEngineMetadata \<Rightarrow> Status \<times> FileSystem \<times> FileOp list" where
  "metadata_write io fs m =
     (if storageEngine m = [] then (StatusError BadValue, fs, [])
      else
        let metadataTempPath = path_append (dbpath m) (kMetadataBasename @ ''.tmp'');
            ops1 = [OpenForOutput metadataTempPath]
        in
        if \<not> ofstreamOpens io then (StatusError FileNotOpen, fs, ops1)
        else
          let fs1 = fs(metadataTempPath \<mapsto> EmptyFile);
              obj = [(''storage'', Object [(''engine'', BSONString (storageEngine m)),
                                          (''options'', Object (storageEngineOptions m))])];
              ops2 = ops1 @ [WriteData metadataTempPath obj]
          in if \<not> ofstreamWrites io then (StatusError OperationFailed, fs1, ops2)
             else
               let fs2 = fs1(metadataTempPath \<mapsto> BsonData obj);
                   metadataPath = path_append (dbpath m) kMetadataBasename;
                   ops3 = ops2 @ [FsyncFile metadataTempPath]
               in if \<not> fsyncFileOpens io then (StatusError FileRenameFailed, fs2, ops3)
                  else
                    let ops4 = ops3 @ [RenameFile metadataTempPath metadataPath] in
                    if \<not> renameSucceeds io then (StatusError FileRenameFailed, fs2, ops4)
                    else
                      let fs3 = fs2(metadataPath := fs2 metadataTempPath,
                                    metadataTempPath := None);
                          ops5 = ops4 @ [FlushMyDirectory metadataPath]
                      in if \<not> flushMyDirectorySucceeds io
                         then (StatusError FileRenameFailed, fs3, ops5)
                         else (StatusOK, fs3, ops5))"

text \<open>
  Writing to a temporary file and renaming it, in the words of the spec: the document
  \<open>{storage: {engine, options}}\<close> is written to the temporary file, which is synced,
  renamed onto the metadata file, and the directory is flushed.
\<close>

definition metadataDocument :: "StorageEngineMetadata \<Rightarrow> BSONObj" where
  "metadataDocument m =
     [(''storage'', Object [(''engine'', BSONString (storageEngine m)),
                           (''options'', Object (storageEngineOptions m))])]"

definition writeToTempThenRename :: "StorageEngineMetadata \<Rightarrow> FileOp list" where
  "writeToTempThenRename m =
     [OpenForOutput (path_append (dbpath m) ''storage.bson.tmp''),
      WriteData (path_append (dbpath m) ''storage.bson.tmp'') (metadataDocument m),
      FsyncFile (path_append (dbpath m) ''storage.bson.tmp''),
      RenameFile (path_append (dbpath m) ''storage.bson.tmp'')
        (path_append (dbpath m) ''storage.bson''),
      FlushMyDirectory (path_append (dbpath m) ''storage.bson'')]"

fun touchesFile :: "string \<Rightarrow> FileOp \<Rightarrow> bool" where
  "touchesFile p (OpenForOutput q) = (q = p)"
| "touchesFile p (WriteData q d) = (q = p)"
| "touchesFile p (FsyncFile q) = False"
| "touchesFile p (RenameFile q r) = (q = p \<or> r = p)"
| "touchesFile p (FlushMyDirectory q) = False"

text \<open>Every file operation of a call succeeds.\<close>

definition ioSucceeds :: "FileIO \<Rightarrow> bool" where
  "ioSucceeds io =
     (fileSizeKnown io \<and> ifstreamOpens io \<and> ifstreamReads io \<and> ofstreamOpens io \<and>
      ofstreamWrites io \<and> fsyncFileOpens io \<and> renameSucceeds io \<and>
      flushMyDirectorySucceeds io)"

text \<open>An operating system without failures and a metadata object, for explicit runs.\<close>

definition sampleIO :: FileIO where
  "sampleIO =
     \<lparr> fileSizeKnown = True, ifstreamOpens = True, ifstreamReads = True,
       ofstreamOpens = True, ofstreamWrites = True, fsyncFileOpens = True,
       renameSucceeds = True, flushMyDirectorySucceeds = True \<rparr>"

definition sampleMetadata :: StorageEngineMetadata where
  "sampleMetadata =
     \<lparr> dbpath = ''/data/db'', storageEngine = ''wiredTiger'',
       storageEngineOptions = [(''directoryPerDB'', Bool True)] \<rparr>"

section \<open>The per-operation locker (lock\_state.cpp)\<close>

text \<open>
  The model is of \<open>LockerImpl<false>\<close>, the instance used by every storage engine
  but MMAPv1: the branches under \<open>IsForMMAPV1\<close> are not taken. The statistics counters
  and the debug-build assertions (\<open>dassert\<close>, \<open>DEV\<close>) are left out.

  The lock modes, the resource types, the singleton ids and \<open>ResourceId\<close> are declared in
  a header outside the files at hand. A resource id pairs a type with the hash of a name;
  as the spec has it, two ids are equal exactly when type and name are equal, so the
  name stands for its hash.
\<close>

datatype LockMode = MODE_NONE | MODE_IS | MODE_IX | MODE_S | MODE_X

datatype LockResult = LOCK_OK | LOCK_WAITING | LOCK_TIMEOUT | LOCK_DEADLOCK | LOCK_INVALID

datatype ResourceType =
    RESOURCE_INVALID | RESOURCE_GLOBAL | RESOURCE_MMAPV1_FLUSH | RESOURCE_DATABASE
  | RESOURCE_COLLECTION | RESOURCE_METADATA | RESOURCE_MUTEX

datatype HashId =
    SINGLETON_INVALID | SINGLETON_PARALLEL_BATCH_WRITER_MODE | SINGLETON_GLOBAL
  | SINGLETON_MMAPV1_FLUSH | NameHash string

datatype ResourceId = ResourceId (getType: ResourceType) (getHashId: HashId)

definition resourceIdGlobal :: ResourceId where
  "resourceIdGlobal = ResourceId RESOURCE_GLOBAL SINGLETON_GLOBAL"

definition resourceIdMMAPV1Flush :: ResourceId where
  "resourceIdMMAPV1Flush = ResourceId RESOURCE_MMAPV1_FLUSH SINGLETON_MMAPV1_FLUSH"

definition resourceIdParallelBatchWriterMode :: ResourceId where
  "resourceIdParallelBatchWriterMode =
     ResourceId RESOURCE_GLOBAL SINGLETON_PARALLEL_BATCH_WRITER_MODE"

datatype ClientState = kInactive | kActiveReader | kActiveWriter | kQueuedReader | kQueuedWriter

datatype RequestStatus = STATUS_NEW | STATUS_GRANTED | STATUS_WAITING | STATUS_CONVERTING

record LockRequest =
  mode :: LockMode
  convertMode :: LockMode
  recursiveCount :: nat
  status :: RequestStatus
  enqueueAtFront :: bool
  compatibleFirst :: bool

type_synonym TicketHolder = nat

text \<open>What the locker does to its collaborators and to its client state, in order.\<close>

datatype LockerEvent =
    SetClientState ClientState
  | WaitForTicket TicketHolder
  | WaitForTicketUntil TicketHolder int
  | ReleaseTicket TicketHolder
  | LockManagerLock ResourceId LockMode
  | LockManagerConvert ResourceId LockMode
  | LockManagerUnlock ResourceId
  | NotifyWait int
  | DeadlockCheck bool

text \<open>
  The locker. \<open>requests\<close> is the \<open>FastMapNoAlloc\<close> of the source (declared outside
  the files at hand): one entry per resource, looked up by key and walked in order.
\<close>

record Locker =
  requests :: "(ResourceId \<times> LockRequest) list"
  wuowNestingLevel :: int
  resourcesToUnlockAtEndOfUnitOfWork :: "ResourceId list"
  modeForTicket :: LockMode
  clientState :: ClientState
  calls :: "LockerEvent list"

text \<open>A call returns a value, ends the process on a failed assertion, or never returns.\<close>

datatype 'a Run = Done 'a | Failed Abort | Blocked

definition bindRun :: "'a Run \<Rightarrow> ('a \<Rightarrow> 'b Run) \<Rightarrow> 'b Run" where
  "bindRun r f = (case r of Done x \<Rightarrow> f x | Failed a \<Rightarrow> Failed a | Blocked \<Rightarrow> Blocked)"

definition record_call :: "LockerEvent \<Rightarrow> Locker \<Rightarrow> Locker" where
  "record_call e l = l\<lparr>calls := calls l @ [e]\<rparr>"

fun shouldDelayUnlock :: "ResourceId \<Rightarrow> LockMode \<Rightarrow> bool Run" where
  "shouldDelayUnlock resId m =
     (case getType resId of
        RESOURCE_GLOBAL \<Rightarrow> Done False
      | RESOURCE_MMAPV1_FLUSH \<Rightarrow> Done False
      | RESOURCE_MUTEX \<Rightarrow> Done False
      | RESOURCE_INVALID \<Rightarrow> Failed Unreachable
      | _ \<Rightarrow>
         (case m of
            MODE_X \<Rightarrow> Done True
          | MODE_IX \<Rightarrow> Done True
          | MODE_IS \<Rightarrow> Done False
          | MODE_S \<Rightarrow> Done False
          | MODE_NONE \<Rightarrow> Failed Unreachable))"

definition inAWriteUnitOfWork :: "Locker \<Rightarrow> bool" where
  "inAWriteUnitOfWork l = (wuowNestingLevel l > 0)"

definition getLockMode :: "Locker \<Rightarrow> ResourceId \<Rightarrow> LockMode" where
  "getLockMode l resId = (case map_of (requests l) resId of None \<Rightarrow> MODE_NONE | Some r \<Rightarrow> mode r)"

definition isLocked :: "Locker \<Rightarrow> bool" where
  "isLocked l = (getLockMode l resourceIdGlobal \<noteq> MODE_NONE)"

text \<open>
  Modelled from the spec: \<open>LockManager::unlock\<close> is outside the files at hand. The spec:
  decrement recursiveCount; at zero, remove the request from its LockHead; return true if
  the request was fully released.
\<close>

definition lockManager_unlock :: "LockRequest \<Rightarrow> bool \<times> LockRequest" where
  "lockManager_unlock request =
     (let request' = request\<lparr>recursiveCount := recursiveCount request - 1\<rparr>
      in (recursiveCount request' = 0, request'))"

text \<open>
  \<open>_unlockImpl\<close> on the entry of \<open>resId\<close>; using an iterator that found nothing is a
  failed invariant of the map. \<open>ticketHolders\<close> is the global table of ticket pools.
\<close>

definition unlockImpl ::
  "(LockMode \<Rightarrow> TicketHolder option) \<Rightarrow> Locker \<Rightarrow> ResourceId \<Rightarrow> (bool \<times> Locker) Run" where
  "unlockImpl ticketHolders l resId =
     (case map_of (requests l) resId of
        None \<Rightarrow> Failed InvariantFailure
      | Some request \<Rightarrow>
          (let l1 = record_call (LockManagerUnlock resId) l in
           case lockManager_unlock request of
             (True, request') \<Rightarrow>
               (let released = l1\<lparr>requests := filter (\<lambda>e. fst e \<noteq> resId) (requests l1)\<rparr> in
                if resId = resourceIdGlobal
                then (if modeForTicket l1 = MODE_NONE then Failed InvariantFailure
                      else
                        let l2 = (case ticketHolders (modeForTicket l1) of
                                    Some holder \<Rightarrow> record_call (ReleaseTicket holder) released
                                  | None \<Rightarrow> released)
                        in Done (True, (record_call (SetClientState kInactive) l2)
                                         \<lparr>modeForTicket := MODE_NONE, clientState := kInactive\<rparr>))
                else Done (True, released))
           | (False, request') \<Rightarrow>
               Done (False, l1\<lparr>requests := map (\<lambda>e. if fst e = resId then (resId, request') else e)
                                             (requests l1)\<rparr>)))"

definition unlock ::
  "(LockMode \<Rightarrow> TicketHolder option) \<Rightarrow> Locker \<Rightarrow> ResourceId \<Rightarrow> (bool \<times> Locker) Run" where
  "unlock ticketHolders l resId =
     (case map_of (requests l) resId of
        None \<Rightarrow> Failed InvariantFailure
      | Some request \<Rightarrow>
          if inAWriteUnitOfWork l
          then bindRun (shouldDelayUnlock resId (mode request))
                 (\<lambda>delay.
                    if delay
                    then Done (False, l\<lparr>resourcesToUnlockAtEndOfUnitOfWork :=
                                           resourcesToUnlockAtEndOfUnitOfWork l @ [resId]\<rparr>)
                    else unlockImpl ticketHolders l resId)
          else unlockImpl ticketHolders l resId)"

definition beginWriteUnitOfWork :: "Locker \<Rightarrow> Locker" where
  "beginWriteUnitOfWork l = l\<lparr>wuowNestingLevel := wuowNestingLevel l + 1\<rparr>"

text \<open>The loop of \<open>endWriteUnitOfWork\<close> over the deferred queue, front first.\<close>

fun unlockDeferred ::
  "(LockMode \<Rightarrow> TicketHolder option) \<Rightarrow> Locker \<Rightarrow> ResourceId list \<Rightarrow> Locker Run" where
  "unlockDeferred ticketHolders l [] = Done (l\<lparr>resourcesToUnlockAtEndOfUnitOfWork := []\<rparr>)"
| "unlockDeferred ticketHolders l (front # rest) =
     bindRun (unlock ticketHolders l front)
       (\<lambda>(released, l1).
          unlockDeferred ticketHolders (l1\<lparr>resourcesToUnlockAtEndOfUnitOfWork := rest\<rparr>) rest)"

definition endWriteUnitOfWork ::
  "(LockMode \<Rightarrow> TicketHolder option) \<Rightarrow> Locker \<Rightarrow> Locker Run" where
  "endWriteUnitOfWork ticketHolders l =
     (if \<not> wuowNestingLevel l > 0 then Failed InvariantFailure
      else
        let l1 = l\<lparr>wuowNestingLevel := wuowNestingLevel l - 1\<rparr> in
        if wuowNestingLevel l1 > 0 then Done l1
        else unlockDeferred ticketHolders l1 (resourcesToUnlockAtEndOfUnitOfWork l1))"

text \<open>
  The releases that the spec defers inside a write unit of work, as the code decides
  them, and what is left of a map entry after \<open>n\<close> releases of one reference each.
\<close>

definition deferredRelease :: "ResourceId \<Rightarrow> LockMode \<Rightarrow> bool" where
  "deferredRelease resId m =
     (getType resId \<in> {RESOURCE_DATABASE, RESOURCE_COLLECTION, RESOURCE_METADATA}
      \<and> m \<in> {MODE_X, MODE_IX})"

definition releasedTimes :: "LockRequest option \<Rightarrow> nat \<Rightarrow> LockRequest option" where
  "releasedTimes entry n =
     (case entry of
        None \<Rightarrow> None
      | Some request \<Rightarrow>
          if n = 0 then Some request
          else if recursiveCount request \<le> n then None
          else Some (request\<lparr>recursiveCount := recursiveCount request - n\<rparr>))"

definition deferredAreHeld :: "Locker \<Rightarrow> bool" where
  "deferredAreHeld l =
     list_all (\<lambda>r. r \<noteq> resourceIdGlobal \<and>
                 (case map_of (requests l) r of
                    None \<Rightarrow> False
                  | Some request \<Rightarrow>
                      count_list (resourcesToUnlockAtEndOfUnitOfWork l) r
                        \<le> recursiveCount request))
       (resourcesToUnlockAtEndOfUnitOfWork l)"

text \<open>
  The ticket pool table before \<open>setGlobalThrottling\<close> (all null), a granted request, and
  a locker inside one write unit of work, for explicit runs.
\<close>

definition initialTicketHolders :: "LockMode \<Rightarrow> TicketHolder option" where
  "initialTicketHolders = (\<lambda>m. None)"

definition grantedRequest :: "LockMode \<Rightarrow> nat \<Rightarrow> LockRequest" where
  "grantedRequest m n =
     \<lparr> mode = m, convertMode = MODE_NONE, recursiveCount = n, status = STATUS_GRANTED,
       enqueueAtFront = False, compatibleFirst = False \<rparr>"

definition sampleLocker :: Locker where
  "sampleLocker =
     \<lparr> requests =
         [(resourceIdGlobal, grantedRequest MODE_IX 1),
          (ResourceId RESOURCE_DATABASE (NameHash ''db''), grantedRequest MODE_IX 1),
          (ResourceId RESOURCE_COLLECTION (NameHash ''db.c''), grantedRequest MODE_X 2),
          (ResourceId RESOURCE_METADATA (NameHash ''m''), grantedRequest MODE_X 1)],
       wuowNestingLevel = 1,
       resourcesToUnlockAtEndOfUnitOfWork = [],
       modeForTicket = MODE_IX,
       clientState = kActiveWriter,
       calls = [] \<rparr>"

section \<open>Acquiring locks (lock\_state.cpp)\<close>

text \<open>
  Modelled from the spec: the lock manager and its requests are outside the files at
  hand. The spec: a request is created on the first acquire of a (locker, resource) pair;
  \<open>lock\<close> returns Granted when the mode is compatible with what others hold and
  otherwise queues the request and returns Waiting; \<open>convert\<close> counts a repeated
  acquire, returns Granted when the new mode can be had (a mode already covered needs
  nothing new) and otherwise marks the request Converting and returns Waiting; a waiter
  that is granted later becomes Granted, a Converting one in its new mode. Whether the
  other lockers leave the mode free is the environment's answer \<open>grants\<close>.
\<close>

definition isSharedLockMode :: "LockMode \<Rightarrow> bool" where
  "isSharedLockMode m = (m = MODE_IS \<or> m = MODE_S)"

fun isModeCovered :: "LockMode \<Rightarrow> LockMode \<Rightarrow> bool" where
  "isModeCovered MODE_NONE held = True"
| "isModeCovered m MODE_X = True"
| "isModeCovered MODE_IS MODE_S = True"
| "isModeCovered MODE_IS MODE_IX = True"
| "isModeCovered m held = (m = held)"

definition initNew :: LockRequest where
  "initNew =
     \<lparr> mode = MODE_NONE, convertMode = MODE_NONE, recursiveCount = 1, status = STATUS_NEW,
       enqueueAtFront = False, compatibleFirst = False \<rparr>"

definition lockManager_lock :: "bool \<Rightarrow> LockRequest \<Rightarrow> LockMode \<Rightarrow> LockResult \<times> LockRequest" where
  "lockManager_lock grants request m =
     (if grants then (LOCK_OK, request\<lparr>mode := m, status := STATUS_GRANTED\<rparr>)
      else (LOCK_WAITING, request\<lparr>mode := m, status := STATUS_WAITING\<rparr>))"

definition lockManager_convert ::
  "bool \<Rightarrow> LockRequest \<Rightarrow> LockMode \<Rightarrow> LockResult \<times> LockRequest" where
  "lockManager_convert grants request newMode =
     (let request' = request\<lparr>recursiveCount := recursiveCount request + 1\<rparr> in
      if isModeCovered newMode (mode request) then (LOCK_OK, request')
      else if grants then (LOCK_OK, request'\<lparr>mode := newMode\<rparr>)
      else (LOCK_WAITING, request'\<lparr>status := STATUS_CONVERTING, convertMode := newMode\<rparr>))"

definition lockManager_granted :: "LockRequest \<Rightarrow> LockRequest" where
  "lockManager_granted request =
     request\<lparr>mode := (if status request = STATUS_CONVERTING then convertMode request
                       else mode request),
              convertMode := MODE_NONE, status := STATUS_GRANTED\<rparr>"

text \<open>
  What the world outside the locker answers: the ticket pool table, whether a pool hands
  out a ticket in time, whether the lock manager grants at once, and for a wait on a
  resource the clock at its start and what each wakeup finds (granted or not, the clock
  in microseconds, and whether the deadlock detector would see a cycle).
\<close>

record Wakeup =
  granted :: bool
  curTimeMicros :: nat
  hasCycle :: bool

record LockEnv =
  ticketHolders :: "LockMode \<Rightarrow> TicketHolder option"
  ticketAvailable :: "TicketHolder \<Rightarrow> bool"
  lockManagerGrants :: "ResourceId \<Rightarrow> LockMode \<Rightarrow> bool"
  wakeups :: "ResourceId \<Rightarrow> Wakeup list"
  startOfWait :: "ResourceId \<Rightarrow> nat"

definition setGlobalThrottling ::
  "TicketHolder option \<Rightarrow> TicketHolder option \<Rightarrow> (LockMode \<Rightarrow> TicketHolder option)
     \<Rightarrow> (LockMode \<Rightarrow> TicketHolder option)" where
  "setGlobalThrottling reading writing holders =
     holders(MODE_S := reading, MODE_IS := reading, MODE_IX := writing)"

definition Milliseconds_max :: int where
  "Milliseconds_max = 9223372036854775807"

definition DeadlockTimeout :: int where
  "DeadlockTimeout = 500"

definition setClientState :: "ClientState \<Rightarrow> Locker \<Rightarrow> Locker" where
  "setClientState s l = (record_call (SetClientState s) l)\<lparr>clientState := s\<rparr>"

definition lockBegin :: "LockEnv \<Rightarrow> Locker \<Rightarrow> ResourceId \<Rightarrow> LockMode \<Rightarrow> LockResult \<times> Locker" where
  "lockBegin env l resId m =
     (let found = map_of (requests l) resId;
          isNew = (found = None);
          request = (case found of None \<Rightarrow> initNew | Some r \<Rightarrow> r);
          request1 = (if getType resId = RESOURCE_GLOBAL \<and> (m = MODE_S \<or> m = MODE_X)
                      then request\<lparr>enqueueAtFront := True, compatibleFirst := True\<rparr>
                      else request);
          (result, request2) =
             (if isNew then lockManager_lock (lockManagerGrants env resId m) request1 m
              else lockManager_convert (lockManagerGrants env resId m) request1 m);
          l1 = record_call (if isNew then LockManagerLock resId m
                            else LockManagerConvert resId m) l
      in (result,
          l1\<lparr>requests := (if isNew then requests l1 @ [(resId, request2)]
                           else map (\<lambda>e. if fst e = resId then (resId, request2) else e)
                                  (requests l1))\<rparr>))"

definition lockGlobalBegin ::
  "LockEnv \<Rightarrow> Locker \<Rightarrow> LockMode \<Rightarrow> int \<Rightarrow> (LockResult \<times> Locker) Run" where
  "lockGlobalBegin env l m timeout =
     (if modeForTicket l = MODE_NONE
      then
        (let reader = isSharedLockMode m;
             holder = ticketHolders env m;
             activate = (\<lambda>l'. Done (lockBegin env
                                  ((setClientState (if reader then kActiveReader
                                                    else kActiveWriter) l')
                                     \<lparr>modeForTicket := m\<rparr>)
                                  resourceIdGlobal m))
         in case holder of
              None \<Rightarrow> activate l
            | Some h \<Rightarrow>
                (let l1 = setClientState (if reader then kQueuedReader else kQueuedWriter) l in
                 if timeout = Milliseconds_max
                 then (if ticketAvailable env h
                       then activate (record_call (WaitForTicket h) l1)
                       else Blocked)
                 else if \<not> ticketAvailable env h
                 then Done (LOCK_TIMEOUT,
                            setClientState kInactive
                              (record_call (WaitForTicketUntil h timeout) l1))
                 else activate (record_call (WaitForTicketUntil h timeout) l1)))
      else Done (lockBegin env l resourceIdGlobal m))"

text \<open>
  The time a wait has taken so far: the difference of two 64-bit microsecond clocks,
  read as a signed 64-bit value and cut to whole milliseconds towards zero.
\<close>

definition totalBlockTime :: "nat \<Rightarrow> nat \<Rightarrow> int" where
  "totalBlockTime curTime startOfTotalWaitTime =
     (let d = (curTime + 2 ^ 64 - startOfTotalWaitTime mod 2 ^ 64) mod 2 ^ 64;
          micros = (if d < 2 ^ 63 then int d else int d - 2 ^ 64)
      in if micros \<ge> 0 then micros div 1000 else - ((- micros) div 1000))"

text \<open>
  The loop of \<open>lockComplete\<close>, one round per wakeup of \<open>_notify.wait(waitTime)\<close>; with no
  wakeup left the loop is still waiting.
\<close>

fun lockCompleteLoop ::
  "int \<Rightarrow> bool \<Rightarrow> nat \<Rightarrow> Wakeup list \<Rightarrow> int \<Rightarrow> Locker \<Rightarrow> (LockResult \<times> Locker) Run" where
  "lockCompleteLoop timeout checkDeadlock startOfTotalWaitTime [] waitTime l = Blocked"
| "lockCompleteLoop timeout checkDeadlock startOfTotalWaitTime (w # ws) waitTime l =
     (let l1 = record_call (NotifyWait waitTime) l;
          result = (if granted w then LOCK_OK else LOCK_TIMEOUT)
      in if result = LOCK_OK then Done (result, l1)
         else if checkDeadlock \<and> hasCycle w
         then Done (LOCK_DEADLOCK, record_call (DeadlockCheck True) l1)
         else
           let l2 = (if checkDeadlock then record_call (DeadlockCheck False) l1 else l1) in
           if timeout = Milliseconds_max
           then lockCompleteLoop timeout checkDeadlock startOfTotalWaitTime ws waitTime l2
           else
             let total = totalBlockTime (curTimeMicros w) startOfTotalWaitTime;
                 waitTime' = (if total < timeout then min (timeout - total) DeadlockTimeout
                              else 0)
             in if waitTime' = 0 then Done (result, l2)
                else lockCompleteLoop timeout checkDeadlock startOfTotalWaitTime ws
                       waitTime' l2)"

definition lockComplete ::
  "LockEnv \<Rightarrow> Locker \<Rightarrow> ResourceId \<Rightarrow> LockMode \<Rightarrow> int \<Rightarrow> bool \<Rightarrow> (LockResult \<times> Locker) Run" where
  "lockComplete env l resId m timeout checkDeadlock =
     bindRun (lockCompleteLoop timeout checkDeadlock (startOfWait env resId)
                (wakeups env resId) (min timeout DeadlockTimeout) l)
       (\<lambda>(result, l1).
          if result \<noteq> LOCK_OK
          then bindRun (unlockImpl (ticketHolders env) l1 resId)
                 (\<lambda>(released, l2). Done (result, l2))
          else Done (result,
                     l1\<lparr>requests := map (\<lambda>e. if fst e = resId
                                               then (resId, lockManager_granted (snd e))
                                               else e) (requests l1)\<rparr>))"

definition lock ::
  "LockEnv \<Rightarrow> Locker \<Rightarrow> ResourceId \<Rightarrow> LockMode \<Rightarrow> int \<Rightarrow> bool \<Rightarrow> (LockResult \<times> Locker) Run" where
  "lock env l resId m timeout checkDeadlock =
     (case lockBegin env l resId m of
        (result, l1) \<Rightarrow>
          if result = LOCK_OK then Done (LOCK_OK, l1)
          else if result \<noteq> LOCK_WAITING then Failed InvariantFailure
          else lockComplete env l1 resId m timeout checkDeadlock)"

definition lockGlobalComplete :: "LockEnv \<Rightarrow> Locker \<Rightarrow> int \<Rightarrow> (LockResult \<times> Locker) Run" where
  "lockGlobalComplete env l timeout =
     lockComplete env l resourceIdGlobal (getLockMode l resourceIdGlobal) timeout False"

definition lockGlobal :: "LockEnv \<Rightarrow> Locker \<Rightarrow> LockMode \<Rightarrow> (LockResult \<times> Locker) Run" where
  "lockGlobal env l m =
     bindRun (lockGlobalBegin env l m Milliseconds_max)
       (\<lambda>(result, l1).
          if result = LOCK_WAITING then lockGlobalComplete env l1 Milliseconds_max
          else Done (result, l1))"

text \<open>
  The first phase of \<open>lockGlobal\<close> in the words of the spec: the pool a mode draws its
  ticket from, the client states while queued and once active, the wait made on the
  pool, the call that reaches the lock manager, and what a run of the phase has to look
  like for a locker without a ticket.
\<close>

definition ticketPoolFor :: "TicketHolder \<Rightarrow> TicketHolder \<Rightarrow> LockMode \<Rightarrow> TicketHolder option" where
  "ticketPoolFor reading writing m =
     (if m = MODE_S \<or> m = MODE_IS then Some reading
      else if m = MODE_IX then Some writing
      else None)"

definition queuedState :: "LockMode \<Rightarrow> ClientState" where
  "queuedState m = (if m = MODE_S \<or> m = MODE_IS then kQueuedReader else kQueuedWriter)"

definition activeState :: "LockMode \<Rightarrow> ClientState" where
  "activeState m = (if m = MODE_S \<or> m = MODE_IS then kActiveReader else kActiveWriter)"

definition ticketWait :: "TicketHolder \<Rightarrow> int \<Rightarrow> LockerEvent" where
  "ticketWait pool timeout =
     (if timeout = Milliseconds_max then WaitForTicket pool
      else WaitForTicketUntil pool timeout)"

definition lockManagerCall :: "Locker \<Rightarrow> ResourceId \<Rightarrow> LockMode \<Rightarrow> LockerEvent" where
  "lockManagerCall l resId m =
     (if map_of (requests l) resId = None then LockManagerLock resId m
      else LockManagerConvert resId m)"

definition ticketPhase ::
  "LockEnv \<Rightarrow> TicketHolder \<Rightarrow> TicketHolder \<Rightarrow> Locker \<Rightarrow> LockMode \<Rightarrow> int
     \<Rightarrow> (LockResult \<times> Locker) Run \<Rightarrow> bool" where
  "ticketPhase env reading writing l m timeout run =
     (case ticketPoolFor reading writing m of
        None \<Rightarrow>
          (case run of
             Done (r, l') \<Rightarrow>
               calls l' = calls l @ [SetClientState (activeState m),
                                     lockManagerCall l resourceIdGlobal m]
               \<and> clientState l' = activeState m \<and> modeForTicket l' = m
           | _ \<Rightarrow> False)
      | Some pool \<Rightarrow>
          if ticketAvailable env pool
          then (case run of
                  Done (r, l') \<Rightarrow>
                    calls l' = calls l @ [SetClientState (queuedState m),
                                          ticketWait pool timeout,
                                          SetClientState (activeState m),
                                          lockManagerCall l resourceIdGlobal m]
                    \<and> clientState l' = activeState m \<and> modeForTicket l' = m
                | _ \<Rightarrow> False)
          else if timeout = Milliseconds_max then run = Blocked
          else (case run of
                  Done (r, l') \<Rightarrow>
                    r = LOCK_TIMEOUT
                    \<and> calls l' = calls l @ [SetClientState (queuedState m),
                                            WaitForTicketUntil pool timeout,
                                            SetClientState kInactive]
                    \<and> clientState l' = kInactive \<and> modeForTicket l' = MODE_NONE
                    \<and> requests l' = requests l
                | _ \<Rightarrow> False))"

text \<open>
  A freshly constructed locker, and an environment with a reader pool 1 that has a ticket
  and a writer pool 2 that has none, in which the lock manager grants every request.
\<close>

definition newLocker :: Locker where
  "newLocker =
     \<lparr> requests = [], wuowNestingLevel = 0, resourcesToUnlockAtEndOfUnitOfWork = [],
       modeForTicket = MODE_NONE, clientState = kInactive, calls = [] \<rparr>"

definition sampleLockEnv :: LockEnv where
  "sampleLockEnv =
     \<lparr> ticketHolders = setGlobalThrottling (Some 1) (Some 2) initialTicketHolders,
       ticketAvailable = (\<lambda>h. h = 1),
       lockManagerGrants = (\<lambda>resId m. True),
       wakeups = (\<lambda>resId. []),
       startOfWait = (\<lambda>resId. 0) \<rparr>"

text \<open>
  The waiting of \<open>lockComplete\<close> in the words of the spec: every sleep on the
  notification is at most 500 ms long; the deadlock detector runs only when checking was
  asked for, and then once for every wakeup that found the lock not granted; the result
  is LOCK_DEADLOCK exactly when the detector found a cycle. After the waiting, a granted
  request is Granted, and for any other result the request is unlocked: the lock manager's
  unlock is the first call made and one reference of the request is released.
\<close>

fun isNotifyWait :: "LockerEvent \<Rightarrow> bool" where
  "isNotifyWait (NotifyWait t) = True"
| "isNotifyWait e = False"

fun isDeadlockCheck :: "LockerEvent \<Rightarrow> bool" where
  "isDeadlockCheck (DeadlockCheck b) = True"
| "isDeadlockCheck e = False"

fun boundedWaitOrCheck :: "bool \<Rightarrow> LockerEvent \<Rightarrow> bool" where
  "boundedWaitOrCheck checkDeadlock (NotifyWait t) = (t \<le> 500)"
| "boundedWaitOrCheck checkDeadlock (DeadlockCheck b) = checkDeadlock"
| "boundedWaitOrCheck checkDeadlock e = False"

definition waitLoopTrace :: "bool \<Rightarrow> LockResult \<Rightarrow> LockerEvent list \<Rightarrow> bool" where
  "waitLoopTrace checkDeadlock r new =
     (list_all (boundedWaitOrCheck checkDeadlock) new
      \<and> (r = LOCK_OK \<or> r = LOCK_TIMEOUT \<or> r = LOCK_DEADLOCK)
      \<and> (r = LOCK_DEADLOCK) = (DeadlockCheck True \<in> set new)
      \<and> (if checkDeadlock
          then length (filter isDeadlockCheck new) + (if r = LOCK_OK then 1 else 0)
                 = length (filter isNotifyWait new)
          else filter isDeadlockCheck new = []))"

definition lockCompleteOutcome ::
  "Locker \<Rightarrow> ResourceId \<Rightarrow> bool \<Rightarrow> LockResult \<Rightarrow> Locker \<Rightarrow> bool" where
  "lockCompleteOutcome l resId checkDeadlock r l' =
     (\<exists>new cleanup.
        calls l' = calls l @ new @ cleanup
        \<and> waitLoopTrace checkDeadlock r new
        \<and> (if r = LOCK_OK
            then cleanup = []
                 \<and> map_of (requests l') resId
                     = map_option lockManager_granted (map_of (requests l) resId)
            else cleanup \<noteq> [] \<and> hd cleanup = LockManagerUnlock resId
                 \<and> map_of (requests l') resId
                     = releasedTimes (map_of (requests l) resId) 1))"

text \<open>
  What a wakeup means for the wait, in the words of the spec. A bounded wait has timed
  out when the time waited so far has reached the timeout. The wait ends at a wakeup
  that finds the lock granted, or, when deadlock checking was asked for, a cycle, or the
  wait timed out; the result is then LOCK_OK for a grant, else LOCK_DEADLOCK for a cycle
  seen by the detector, else LOCK_TIMEOUT.
\<close>

definition timedOut :: "int \<Rightarrow> nat \<Rightarrow> Wakeup \<Rightarrow> bool" where
  "timedOut timeout startOfTotalWaitTime w =
     (timeout \<noteq> Milliseconds_max
      \<and> timeout \<le> totalBlockTime (curTimeMicros w) startOfTotalWaitTime)"

definition waitEnds :: "bool \<Rightarrow> int \<Rightarrow> nat \<Rightarrow> Wakeup \<Rightarrow> bool" where
  "waitEnds checkDeadlock timeout startOfTotalWaitTime w =
     (granted w \<or> (checkDeadlock \<and> hasCycle w) \<or> timedOut timeout startOfTotalWaitTime w)"

definition wakeupResult :: "bool \<Rightarrow> Wakeup \<Rightarrow> LockResult" where
  "wakeupResult checkDeadlock w =
     (if granted w then LOCK_OK
      else if checkDeadlock \<and> hasCycle w then LOCK_DEADLOCK
      else LOCK_TIMEOUT)"

text \<open>
  A locker whose request for the database \<open>db\<close> waits, and an environment in which
  the lock is never granted and the second wakeup sees a cycle.
\<close>

definition waitingLocker :: Locker where
  "waitingLocker =
     \<lparr> requests =
         [(resourceIdGlobal, grantedRequest MODE_IX 1),
          (ResourceId RESOURCE_DATABASE (NameHash ''db''),
           (grantedRequest MODE_X 1)\<lparr>status := STATUS_WAITING\<rparr>)],
       wuowNestingLevel = 0,
       resourcesToUnlockAtEndOfUnitOfWork = [],
       modeForTicket = MODE_IX,
       clientState = kActiveWriter,
       calls = [] \<rparr>"

definition deadlockedEnv :: LockEnv where
  "deadlockedEnv =
     sampleLockEnv\<lparr>lockManagerGrants := (\<lambda>resId m. False),
       wakeups := (\<lambda>resId. [\<lparr>granted = False, curTimeMicros = 500000, hasCycle = False\<rparr>,
                              \<lparr>granted = False, curTimeMicros = 1000000, hasCycle = True\<rparr>])\<rparr>"

section \<open>Saving and restoring the lock state (lock\_state.cpp)\<close>

text \<open>
  A snapshot holds the mode of the global lock and the other locks as (resource, mode)
  pairs. \<open>std::sort\<close> orders them by the resource id; the value that \<open>ResourceId\<close>
  compares by is declared outside the files at hand and is the parameter \<open>fullHash\<close>.
\<close>

type_synonym OneLock = "ResourceId \<times> LockMode"

record LockSnapshot =
  globalMode :: LockMode
  locks :: "OneLock list"

text \<open>The loop over the requests left after the global lock was released.\<close>

fun saveLoop ::
  "(LockMode \<Rightarrow> TicketHolder option) \<Rightarrow> Locker \<Rightarrow> (ResourceId \<times> LockRequest) list
     \<Rightarrow> OneLock list \<Rightarrow> (OneLock list \<times> Locker) Run" where
  "saveLoop th l [] out = Done (out, l)"
| "saveLoop th l ((resId, request) # rest) out =
     (if getType resId = RESOURCE_MUTEX then saveLoop th l rest out
      else if \<not> (getType resId = RESOURCE_DATABASE \<or> getType resId = RESOURCE_COLLECTION \<or>
                  (getType resId = RESOURCE_GLOBAL \<and> isSharedLockMode (mode request)))
      then Failed InvariantFailure
      else bindRun (unlock th l resId)
             (\<lambda>(released, l1).
                if \<not> released then Failed InvariantFailure
                else saveLoop th l1 rest (out @ [(resId, mode request)])))"

definition saveLockStateAndUnlock ::
  "(ResourceId \<Rightarrow> nat) \<Rightarrow> (LockMode \<Rightarrow> TicketHolder option) \<Rightarrow> Locker
     \<Rightarrow> (bool \<times> LockSnapshot \<times> Locker) Run" where
  "saveLockStateAndUnlock fullHash th l =
     (if inAWriteUnitOfWork l then Failed InvariantFailure
      else
        let cleared = \<lparr>globalMode = MODE_NONE, locks = []\<rparr> in
        case map_of (requests l) resourceIdGlobal of
          None \<Rightarrow>
            if list_all (\<lambda>e. getType (fst e) = RESOURCE_MUTEX) (requests l)
            then Done (False, cleared, l)
            else Failed InvariantFailure
        | Some globalRequest \<Rightarrow>
            if recursiveCount globalRequest > 1 then Done (False, cleared, l)
            else
              bindRun (unlock th l resourceIdGlobal)
                (\<lambda>(released, l1).
                   if \<not> released then Failed InvariantFailure
                   else
                     bindRun (saveLoop th l1 (requests l1) [])
                       (\<lambda>(out, l2).
                          if isLocked l2 then Failed InvariantFailure
                          else Done (True,
                                     \<lparr>globalMode = mode globalRequest,
                                      locks = sort_key (\<lambda>info. fullHash (fst info)) out\<rparr>,
                                     l2))))"

text \<open>\<open>lock(resId, mode)\<close> with its default arguments, which has to return LOCK_OK.\<close>

definition lockOrDie :: "LockEnv \<Rightarrow> Locker \<Rightarrow> OneLock \<Rightarrow> Locker Run" where
  "lockOrDie env l info =
     bindRun (lock env l (fst info) (snd info) Milliseconds_max False)
       (\<lambda>(result, l1). if result = LOCK_OK then Done l1 else Failed InvariantFailure)"

fun restoreLoop :: "LockEnv \<Rightarrow> Locker \<Rightarrow> OneLock list \<Rightarrow> Locker Run" where
  "restoreLoop env l [] = Done l"
| "restoreLoop env l (info # rest) =
     bindRun (lockOrDie env l info) (\<lambda>l1. restoreLoop env l1 rest)"

definition restoreLockState :: "LockEnv \<Rightarrow> Locker \<Rightarrow> LockSnapshot \<Rightarrow> Locker Run" where
  "restoreLockState env l state =
     (if inAWriteUnitOfWork l then Failed InvariantFailure
      else if modeForTicket l \<noteq> MODE_NONE then Failed InvariantFailure
      else
        bindRun (case locks state of
                   info # rest \<Rightarrow>
                     if fst info = resourceIdParallelBatchWriterMode
                     then bindRun (lockOrDie env l info) (\<lambda>l1. Done (l1, rest))
                     else Done (l, locks state)
                 | [] \<Rightarrow> Done (l, locks state))
          (\<lambda>(l1, it).
             bindRun (lockGlobal env l1 (globalMode state))
               (\<lambda>(result, l2).
                  if result \<noteq> LOCK_OK then Failed InvariantFailure
                  else bindRun (restoreLoop env l2 it)
                         (\<lambda>l3. if modeForTicket l3 = MODE_NONE then Failed InvariantFailure
                                else Done l3))))"

text \<open>
  The locks a locker holds as (resource, mode) pairs in the order of its map, the mutex
  resources (which a snapshot leaves alone), the acquisitions a locker has asked of the
  lock manager in order, and the order in which \<open>restoreLockState\<close> walks a snapshot:
  its first entry before the global lock when that is the parallel-batch-writer-mode
  lock, then the global lock, then the rest of the snapshot in its order.
\<close>

definition heldLocks :: "Locker \<Rightarrow> OneLock list" where
  "heldLocks l = map (\<lambda>e. (fst e, mode (snd e))) (requests l)"

definition isMutex :: "ResourceId \<Rightarrow> bool" where
  "isMutex resId = (getType resId = RESOURCE_MUTEX)"

fun acquisitionsOf :: "LockerEvent list \<Rightarrow> OneLock list" where
  "acquisitionsOf [] = []"
| "acquisitionsOf (LockManagerLock resId m # es) = (resId, m) # acquisitionsOf es"
| "acquisitionsOf (LockManagerConvert resId m # es) = (resId, m) # acquisitionsOf es"
| "acquisitionsOf (e # es) = acquisitionsOf es"

definition acquisitions :: "Locker \<Rightarrow> OneLock list" where
  "acquisitions l = acquisitionsOf (calls l)"

definition restoreOrder :: "LockSnapshot \<Rightarrow> OneLock list" where
  "restoreOrder state =
     (case locks state of
        info # rest \<Rightarrow>
          if fst info = resourceIdParallelBatchWriterMode
          then info # (resourceIdGlobal, globalMode state) # rest
          else (resourceIdGlobal, globalMode state) # info # rest
      | [] \<Rightarrow> [(resourceIdGlobal, globalMode state)])"

text \<open>
  The locks a locker holds granted: the (resource, mode) pairs of its requests whose
  status is Granted, in the order of its map.
\<close>

definition grantedLocks :: "Locker \<Rightarrow> OneLock list" where
  "grantedLocks l =
     map (\<lambda>e. (fst e, mode (snd e)))
       (filter (\<lambda>e. status (snd e) = STATUS_GRANTED) (requests l))"

text \<open>
  The order of reacquisition in the words of the spec, from the locks held before the
  save: the parallel-batch-writer-mode lock first if it was held, then the global lock,
  then the other non-mutex locks in ascending order of their resource ids.
\<close>

definition reacquired :: "(ResourceId \<Rightarrow> nat) \<Rightarrow> OneLock list \<Rightarrow> OneLock list" where
  "reacquired fullHash held =
     filter (\<lambda>info. fst info = resourceIdParallelBatchWriterMode) held
     @ filter (\<lambda>info. fst info = resourceIdGlobal) held
     @ sort_key (\<lambda>info. fullHash (fst info))
         (filter (\<lambda>info. \<not> isMutex (fst info) \<and> fst info \<noteq> resourceIdGlobal
                          \<and> fst info \<noteq> resourceIdParallelBatchWriterMode) held)"

text \<open>
  The order of \<open>ResourceId\<close> puts the type of a resource before its name, so that the
  parallel-batch-writer-mode resource has the lowest id of the resources a snapshot can
  hold; of the parameter \<open>fullHash\<close> this is asked for the resources of a locker.
\<close>

definition pbwmLowest :: "(ResourceId \<Rightarrow> nat) \<Rightarrow> Locker \<Rightarrow> bool" where
  "pbwmLowest fullHash l =
     list_all (\<lambda>e. isMutex (fst e) \<or> fst e = resourceIdGlobal
                    \<or> fst e = resourceIdParallelBatchWriterMode
                    \<or> fullHash resourceIdParallelBatchWriterMode < fullHash (fst e))
       (requests l)"

text \<open>
  A request is granted in the end when the lock manager grants it at once or one of the
  wakeups of a wait for its resource finds it granted; the global lock needs a ticket of
  the pool of its mode first, when there is one.
\<close>

definition grantedInTheEnd :: "LockEnv \<Rightarrow> OneLock \<Rightarrow> bool" where
  "grantedInTheEnd env info =
     (lockManagerGrants env (fst info) (snd info)
      \<or> list_ex granted (wakeups env (fst info)))"

definition ticketInTheEnd :: "LockEnv \<Rightarrow> LockMode \<Rightarrow> bool" where
  "ticketInTheEnd env m =
     (case ticketHolders env m of None \<Rightarrow> True | Some h \<Rightarrow> ticketAvailable env h)"

definition allGranted :: "Locker \<Rightarrow> bool" where
  "allGranted l = list_all (\<lambda>e. status (snd e) = STATUS_GRANTED) (requests l)"

text \<open>
  An order of the resource ids by type and then name, a locker that holds read locks and
  one mutex, and an environment that has every ticket and grants every request, for
  explicit runs.
\<close>

fun sampleFullHash :: "ResourceId \<Rightarrow> nat" where
  "sampleFullHash (ResourceId t h) =
     (case t of RESOURCE_INVALID \<Rightarrow> 0 | RESOURCE_GLOBAL \<Rightarrow> 1 | RESOURCE_MMAPV1_FLUSH \<Rightarrow> 2
      | RESOURCE_DATABASE \<Rightarrow> 3 | RESOURCE_COLLECTION \<Rightarrow> 4 | RESOURCE_METADATA \<Rightarrow> 5
      | RESOURCE_MUTEX \<Rightarrow> 6) * 1000
     + (case h of SINGLETON_INVALID \<Rightarrow> 0 | SINGLETON_PARALLEL_BATCH_WRITER_MODE \<Rightarrow> 1
        | SINGLETON_GLOBAL \<Rightarrow> 2 | SINGLETON_MMAPV1_FLUSH \<Rightarrow> 3 | NameHash s \<Rightarrow> length s)"

definition readingLocker :: Locker where
  "readingLocker =
     \<lparr> requests =
         [(ResourceId RESOURCE_DATABASE (NameHash ''db''), grantedRequest MODE_IS 1),
          (resourceIdGlobal, grantedRequest MODE_IS 1),
          (ResourceId RESOURCE_MUTEX (NameHash ''m''), grantedRequest MODE_X 1),
          (resourceIdParallelBatchWriterMode, grantedRequest MODE_IS 1),
          (ResourceId RESOURCE_COLLECTION (NameHash ''db.c''), grantedRequest MODE_IS 1)],
       wuowNestingLevel = 0,
       resourcesToUnlockAtEndOfUnitOfWork = [],
       modeForTicket = MODE_IS,
       clientState = kActiveReader,
       calls = [] \<rparr>"

definition grantingEnv :: LockEnv where
  "grantingEnv = sampleLockEnv\<lparr>ticketAvailable := (\<lambda>h. True)\<rparr>"

text \<open>
  An environment with contention: the lock manager grants no database lock at once, and
  a wait finds the lock granted at its second wakeup.
\<close>

definition contendedEnv :: LockEnv where
  "contendedEnv =
     grantingEnv\<lparr>lockManagerGrants := (\<lambda>resId m. getType resId \<noteq> RESOURCE_DATABASE),
       wakeups := (\<lambda>resId. [\<lparr>granted = False, curTimeMicros = 500000, hasCycle = False\<rparr>,
                              \<lparr>granted = True, curTimeMicros = 600000, hasCycle = False\<rparr>])\<rparr>"

section \<open>Properties of plan selection\<close>

lemma find_append_cases:
  "find P (xs @ ys) = (case find P xs of Some x \<Rightarrow> Some x | None \<Rightarrow> find P ys)"
  by (induction xs) auto

lemma getStageByType_is_first:
  "getStageByType root type = find (\<lambda>s. stageType s = type) (preorder root)"
  "getStageByType_children cs type = find (\<lambda>s. stageType s = type) (preorder_children cs)"
  by (induction root type and cs type rule: getStageByType_getStageByType_children.induct)
     (auto simp: find_append_cases split: option.splits)

text \<open>
  Claim C6. On a usable executor and for every stage tree, \<open>pickBestPlan\<close> hands plan
  selection to the first Subplan stage of the tree (first in depth-first order) if there
  is one; otherwise to the first MultiPlan stage if there is one; otherwise to the first
  CachedPlan stage if there is one; and returns that stage's status, invoking no other
  stage. With none of the three kinds in the tree it returns OK and invokes nothing.
\<close>

theorem pickBestPlan_priority:
  "pickBestPlan kUsable stagePick root =
     (case firstOfType root STAGE_SUBPLAN of
        Some s \<Rightarrow> Inr (stagePick s, [s])
      | None \<Rightarrow>
         (case firstOfType root STAGE_MULTI_PLAN of
            Some m \<Rightarrow> Inr (stagePick m, [m])
          | None \<Rightarrow>
             (case firstOfType root STAGE_CACHED_PLAN of
                Some c \<Rightarrow> Inr (stagePick c, [c])
              | None \<Rightarrow> Inr (StatusOK, []))))"
  by (simp add: pickBestPlan_def firstOfType_def getStageByType_is_first(1) split: option.splits)

section \<open>Properties of index descriptors\<close>

lemma isIdIndexPattern_id_one:
  "numberInt (''_id'', v) = 1 \<Longrightarrow> isIdIndexPattern [(''_id'', v)]"
  by (simp add: isIdIndexPattern_def iter_next_def fieldName_def eoo_def eooElement_def)

text \<open>
  Claim C8, first half as the spec words it: the index namespace would be the parent
  namespace, a dollar sign and the index name. The descriptor of index \<open>i\<close> on \<open>db.c\<close>
  has the namespace \<open>db.c.$i\<close>, with a dot before the dollar sign.
\<close>

theorem indexNamespace_dollar_counterexample:
  "indexNamespace (newIndexDescriptor ''btree''
       [(''name'', BSONString ''i''), (''ns'', BSONString ''db.c'')])
     \<noteq> parentNS (newIndexDescriptor ''btree''
           [(''name'', BSONString ''i''), (''ns'', BSONString ''db.c'')])
         @ ''$'' @
         indexName (newIndexDescriptor ''btree''
           [(''name'', BSONString ''i''), (''ns'', BSONString ''db.c'')])"
  by (simp add: newIndexDescriptor_def makeIndexNamespace_def getStringField_def
      getField_def kIndexNameFieldName_def kNamespaceFieldName_def Let_def)

text \<open>
  Claim C8, amended. For every descriptor built from an info object, the index namespace
  is the parent collection namespace, then \<open>.$\<close>, then the index name; and every
  descriptor whose key pattern is the single field \<open>_id\<close> with the numeric value 1
  reports \<open>unique\<close> (whatever the info object says under \<open>unique\<close>).
\<close>

theorem indexNamespace_and_id_unique:
  "indexNamespace (newIndexDescriptor am info) =
     parentNS (newIndexDescriptor am info) @ ''.$'' @ indexName (newIndexDescriptor am info)
   \<and> (keyPattern (newIndexDescriptor am info) = [(''_id'', v)] \<and> numberInt (''_id'', v) = 1
        \<longrightarrow> unique (newIndexDescriptor am info))"
  using isIdIndexPattern_id_one [of v]
  by (auto simp add: newIndexDescriptor_def makeIndexNamespace_def Let_def)

theorem indexNamespace_and_id_unique_witness:
  "indexNamespace (newIndexDescriptor ''btree''
      [(''key'', Object [(''_id'', NumberInt 1)]), (''name'', BSONString ''_id_''),
       (''ns'', BSONString ''db.c''), (''unique'', Bool False)]) = ''db.c.$_id_''
   \<and> keyPattern (newIndexDescriptor ''btree''
      [(''key'', Object [(''_id'', NumberInt 1)]), (''name'', BSONString ''_id_''),
       (''ns'', BSONString ''db.c''), (''unique'', Bool False)]) = [(''_id'', NumberInt 1)]
   \<and> unique (newIndexDescriptor ''btree''
      [(''key'', Object [(''_id'', NumberInt 1)]), (''name'', BSONString ''_id_''),
       (''ns'', BSONString ''db.c''), (''unique'', Bool False)])"
proof -
  let ?info = "[(''key'', Object [(''_id'', NumberInt 1)]), (''name'', BSONString ''_id_''),
       (''ns'', BSONString ''db.c''), (''unique'', Bool False)]"
  have k: "keyPattern (newIndexDescriptor ''btree'' ?info) = [(''_id'', NumberInt 1)]"
    by (simp add: newIndexDescriptor_def getObjectField_def getField_def
        kKeyPatternFieldName_def Let_def)
  have n: "parentNS (newIndexDescriptor ''btree'' ?info) = ''db.c''"
      "indexName (newIndexDescriptor ''btree'' ?info) = ''_id_''"
    by (simp_all add: newIndexDescriptor_def getStringField_def getField_def
        kIndexNameFieldName_def kNamespaceFieldName_def Let_def)
  from indexNamespace_and_id_unique [of "''btree''" ?info "NumberInt 1"] k n
  show ?thesis by simp
qed

section \<open>Properties of dropping a collection\<close>





lemma dropSteps_emit:
  "dropSteps (emit e db) = dropSteps db @ (if storageOrReplEvent e then [e] else [])"
  by (simp add: dropSteps_def emit_def)

lemma emit_fields [simp]:
  "collections (emit e db) = collections db"
  "dbEntry (emit e db) = dbEntry db"
  "dropPendingNamespaces (emit e db) = dropPendingNamespaces db"
  "db_name (emit e db) = db_name db"
  "profile (emit e db) = profile db"
  by (simp_all add: emit_def)

lemma dropSteps_update [simp]:
  "dropSteps (db\<lparr>collections := c\<rparr>) = dropSteps db"
  "dropSteps (db\<lparr>dbEntry := d\<rparr>) = dropSteps db"
  "dropSteps (db\<lparr>dropPendingNamespaces := r\<rparr>) = dropSteps db"
  by (simp_all add: dropSteps_def)

lemma dropSteps_setIndexes [simp]: "dropSteps (setIndexes ns ixs db) = dropSteps db"
  by (simp add: setIndexes_def)

lemma getCollection_steps:
  "getCollection opCtx db ns = (r, db') \<Longrightarrow>
     dropSteps db' = dropSteps db \<and> r = collections db ns \<and> collections db' = collections db
     \<and> dbEntry db' = dbEntry db \<and> dropPendingNamespaces db' = dropPendingNamespaces db
     \<and> db_name db' = db_name db"
  by (auto simp: getCollection_def dropSteps_emit split: option.splits if_splits)

lemma clearCollectionCache_steps:
  "clearCollectionCache ops db ns g = Inr db' \<Longrightarrow>
     dropSteps db' = dropSteps db \<and> collections db' = (collections db)(ns := None)
     \<and> dbEntry db' = dbEntry db \<and> dropPendingNamespaces db' = dropPendingNamespaces db
     \<and> db_name db' = db_name db"
  by (auto simp: clearCollectionCache_def dropSteps_emit split: option.splits if_splits)

lemma clearIndexCaches_steps:
  "clearIndexCaches ops db ixs = Inr db' \<Longrightarrow>
     dropSteps db' = dropSteps db \<and> dbEntry db' = dbEntry db
     \<and> dropPendingNamespaces db' = dropPendingNamespaces db \<and> db_name db' = db_name db
     \<and> (\<forall>ns. ns \<notin> indexNamespace ` set ixs \<longrightarrow> collections db' ns = collections db ns)"
proof (induction ixs arbitrary: db)
  case Nil
  then show ?case by simp
next
  case (Cons i ixs)
  from Cons.prems obtain db1 where
    c: "clearCollectionCache ops db (indexNamespace i) True = Inr db1"
    and r: "clearIndexCaches ops db1 ixs = Inr db'"
    by (auto split: sum.splits)
  from clearCollectionCache_steps [OF c] Cons.IH [OF r] show ?case by auto
qed

lemma getOrCreateCollectionInstance_steps:
  "getOrCreateCollectionInstance opCtx db ns = Inr (c, db') \<Longrightarrow>
     dropSteps db' = dropSteps db \<and> collections db' = collections db
     \<and> dbEntry db' = dbEntry db \<and> dropPendingNamespaces db' = dropPendingNamespaces db
     \<and> db_name db' = db_name db
     \<and> (collections db ns = None \<longrightarrow> dbEntry db ns = Some c)"
  by (auto simp: getOrCreateCollectionInstance_def dropSteps_emit
      dest!: getCollection_steps split: option.splits prod.splits if_splits)

lemma setIndexes_fields [simp]:
  "dropPendingNamespaces (setIndexes ns ixs db) = dropPendingNamespaces db"
  "db_name (setIndexes ns ixs db) = db_name db"
  "collections (setIndexes ns ixs db) ns' = None \<longleftrightarrow> collections db ns' = None"
  "dbEntry (setIndexes ns ixs db) ns' = None \<longleftrightarrow> dbEntry db ns' = None"
  by (auto simp: setIndexes_def split: option.splits)

lemma renameCollection_steps:
  assumes "renameCollection ops opCtx db fromNS toNS stayTemp = Inr (StatusOK, db')"
  shows "dropSteps db' = dropSteps db @ [DbEntryRenameCollection fromNS toNS stayTemp]"
    and "dropPendingNamespaces db' = dropPendingNamespaces db"
    and "fromNS \<noteq> toNS \<Longrightarrow> collections db' fromNS = None"
    and "collections db' toNS \<noteq> None"
    and "fromNS \<noteq> toNS \<Longrightarrow> dbEntry db' fromNS = None"
    and "dbEntry db' toNS = dbEntry db fromNS"
  using assms
  unfolding renameCollection_def Let_def getCollection_ns_def
  by (auto simp: dropSteps_emit
      dest!: getCollection_steps clearCollectionCache_steps clearIndexCaches_steps
             getOrCreateCollectionInstance_steps
      split: if_splits sum.splits option.splits prod.splits Status.splits)

lemma finishDropCollection_steps:
  assumes "finishDropCollection ops opCtx db ns = Inr (StatusOK, db')"
  shows "dropSteps db' = dropSteps db @ [DbEntryDropCollection ns]"
    and "dropPendingNamespaces db' = dropPendingNamespaces db"
    and "collections db' ns = None"
    and "dbEntry db' ns = None"
  using assms
  unfolding finishDropCollection_def Let_def
  by (auto simp: dropSteps_emit dest!: clearCollectionCache_steps
      split: sum.splits Status.splits)

lemma dropIndexes_steps:
  "dropIndexes opCtx db ns ixs = Inr db' \<Longrightarrow>
     dropSteps db' = dropSteps db @ indexDropSteps ns ixs
     \<and> dropPendingNamespaces db' = dropPendingNamespaces db
     \<and> db_name db' = db_name db"
proof (induction ixs arbitrary: db)
  case Nil
  then show ?case by (simp add: indexDropSteps_def)
next
  case (Cons i ixs)
  let ?remaining = "case collections db ns of None \<Rightarrow> []
     | Some c \<Rightarrow> filter (\<lambda>j. indexName j \<noteq> indexName i) (indexes c)"
  let ?db1 = "emit (OnDropIndex ns (indexName i))
                (emit (DropIndex ns (indexName i)) (setIndexes ns ?remaining db))"
  from Cons.prems have r: "dropIndexes opCtx ?db1 ns ixs = Inr db'"
    by (simp add: Let_def split: Status.splits)
  from Cons.IH [OF r] show ?case
    by (simp add: dropSteps_emit indexDropSteps_def)
qed

lemma renameToDropPending_steps:
  assumes "renameToDropPending ops opCtx db ns T = Inr (StatusOK, db')"
  shows "dropSteps db' = dropSteps db @
           [DbEntryRenameCollection ns (makeDropPendingNamespace ops ns T) True,
            AddDropPendingNamespace T (makeDropPendingNamespace ops ns T)]"
    and "dropPendingNamespaces db' =
           dropPendingNamespaces db @ [(T, makeDropPendingNamespace ops ns T)]"
    and "collections db' (makeDropPendingNamespace ops ns T) \<noteq> None"
    and "makeDropPendingNamespace ops ns T = ns \<or>
           (collections db' ns = None \<and> dbEntry db' ns = None)"
proof -
  let ?dpns = "makeDropPendingNamespace ops ns T"
  from assms obtain db1 where
    r: "renameCollection ops opCtx db ns ?dpns True = Inr (StatusOK, db1)"
    and d: "db' = (emit (AddDropPendingNamespace T ?dpns) db1)
                    \<lparr>dropPendingNamespaces := dropPendingNamespaces db1 @ [(T, ?dpns)]\<rparr>"
    by (auto simp: renameToDropPending_def Let_def split: sum.splits Status.splits)
  note rs = renameCollection_steps [OF r]
  show "dropSteps db' = dropSteps db @
           [DbEntryRenameCollection ns ?dpns True, AddDropPendingNamespace T ?dpns]"
    using rs(1) d by (simp add: dropSteps_emit)
  show "dropPendingNamespaces db' = dropPendingNamespaces db @ [(T, ?dpns)]"
    using rs(2) d by simp
  show "collections db' ?dpns \<noteq> None"
    using rs(4) d by simp
  show "?dpns = ns \<or> (collections db' ns = None \<and> dbEntry db' ns = None)"
    using rs(3) rs(5) d by auto
qed

lemma dropCollectionEvenIfSystem_outcome:
  assumes ex: "collections db ns = Some collection"
    and nul: "isNull dropOpTime"
    and ok: "dropCollectionEvenIfSystem ops opCtx db ns dropOpTime = Inr (StatusOK, db')"
  shows "dropOutcome ops opCtx ns collection db db'"
proof -
  obtain db1 where g: "getCollection opCtx db ns = (Some collection, db1)"
    using ex by (cases "getCollection opCtx db ns") (auto dest: getCollection_steps)
  note g1 = getCollection_steps [OF g]
  let ?db2 = "emit (TopCollectionDropped ns) (emit (AuditDropCollection ns) db1)"
  have s2: "dropSteps ?db2 = dropSteps db"
    "dropPendingNamespaces ?db2 = dropPendingNamespaces db"
    using g1 by (simp_all add: dropSteps_emit)
  show ?thesis
  proof (cases "isOplogDisabledFor opCtx ns \<or> isMasterSlave opCtx")
    case True
    with ok g nul obtain db3 where
      f: "finishDropCollection ops opCtx ?db2 ns = Inr (StatusOK, db3)"
      and d: "db' = emit (OnDropCollection ns (uuid collection)) db3"
      by (auto simp: dropCollectionEvenIfSystem_def Let_def
          split: if_splits sum.splits Status.splits)
    from finishDropCollection_steps [OF f] s2 d True show ?thesis
      by (simp add: dropOutcome_def Let_def dropSteps_emit)
  next
    case False
    with ok g nul obtain db3 where
      di: "dropIndexes opCtx ?db2 ns (indexesToDrop ops ns collection) = Inr db3"
      and rest: "(let db4 = emit (OnDropCollection ns (uuid collection)) db3;
                      T = onDropCollectionOpTime opCtx
                  in if isNull T
                     then (case finishDropCollection ops opCtx db4 ns of
                             Inl a \<Rightarrow> Inl a
                           | Inr (StatusError e, db5) \<Rightarrow> Inl (Fassert 40462)
                           | Inr (StatusOK, db5) \<Rightarrow> Inr (StatusOK, db5))
                     else renameToDropPending ops opCtx db4 ns T) = Inr (StatusOK, db')"
      by (auto simp: dropCollectionEvenIfSystem_def Let_def
          split: if_splits sum.splits)
    let ?db4 = "emit (OnDropCollection ns (uuid collection)) db3"
    have s4: "dropSteps ?db4 = dropSteps db @
                indexDropSteps ns (indexesToDrop ops ns collection) @
                [OnDropCollection ns (uuid collection)]"
      "dropPendingNamespaces ?db4 = dropPendingNamespaces db"
      using dropIndexes_steps [OF di] s2 by (simp_all add: dropSteps_emit)
    show ?thesis
    proof (cases "isNull (onDropCollectionOpTime opCtx)")
      case True
      with rest have f: "finishDropCollection ops opCtx ?db4 ns = Inr (StatusOK, db')"
        by (auto simp: Let_def split: sum.splits Status.splits)
      from finishDropCollection_steps [OF f] s4 True False show ?thesis
        by (simp add: dropOutcome_def Let_def)
    next
      case n: False
      with rest have r: "renameToDropPending ops opCtx ?db4 ns (onDropCollectionOpTime opCtx)
                           = Inr (StatusOK, db')"
        by (simp add: Let_def)
      from renameToDropPending_steps [OF r] s4 n False show ?thesis
        by (simp add: dropOutcome_def Let_def)
    qed
  qed
qed

lemmas drop_eval =
  dropCollection_def dropCollectionEvenIfSystem_def getCollection_ns_def getCollection_def
  renameToDropPending_def renameCollection_def finishDropCollection_def
  clearCollectionCache_def getOrCreateCollectionInstance_def indexesToDrop_def
  setIndexes_def emit_def isNull_def coll_of_def newIndexDescriptor_def
  getStringField_def getObjectField_def getField_def makeIndexNamespace_def
  kIndexNameFieldName_def kNamespaceFieldName_def kKeyPatternFieldName_def
  sampleNsOps_def sampleOpCtx_def sampleDatabase_def sampleCollection_def Let_def

text \<open>
  Claim C5 as stated has every drop of an existing replicated collection renamed and handed
  to the reaper. When the op observer writes no oplog entry (it returns the null optime)
  the collection is dropped from the storage engine at once and nothing reaches the reaper.
\<close>

theorem dropCollection_null_observer_counterexample:
  "collections sampleDatabase ''db.c'' = Some sampleCollection
   \<and> \<not> isOplogDisabledFor sampleOpCtx ''db.c'' \<and> \<not> isMasterSlave sampleOpCtx
   \<and> (\<exists>db'. dropCollection sampleNsOps (sampleOpCtx\<lparr>onDropCollectionOpTime := (0, 0)\<rparr>)
                sampleDatabase ''db.c'' (0, 0) = Inr (StatusOK, db')
            \<and> dropPendingNamespaces db' = []
            \<and> dbEntry db' ''db.c'' = None
            \<and> dropSteps db' =
                [DropIndex ''db.c'' ''a_long_index_name'',
                 OnDropIndex ''db.c'' ''a_long_index_name'',
                 OnDropCollection ''db.c'' (Some 7),
                 DbEntryDropCollection ''db.c''])"
  by (simp add: drop_eval dropSteps_def)

text \<open>
  Claim C5, amended. For every \<open>dropCollection\<close> of an existing collection with a null
  drop optime that returns OK: when the oplog is disabled for the namespace or the node
  runs master/slave, the storage entry is dropped immediately and the drop is logged;
  otherwise the indexes whose namespace under the longest drop-pending name would exceed
  the length limit are dropped first (each drop handed to the op observer), then the
  drop is logged, and then, when the op observer returned a drop optime, the collection
  is renamed to the drop-pending namespace of that optime and the namespace is registered
  with the reaper, and when it returned none, the storage entry is dropped immediately.
\<close>

theorem dropCollection_phases:
  assumes ex: "collections db ns = Some collection"
    and nul: "isNull dropOpTime"
    and ok: "dropCollection ops opCtx db ns dropOpTime = Inr (StatusOK, db')"
  shows "dropOutcome ops opCtx ns collection db db'"
proof -
  obtain db1 where g: "getCollection opCtx db ns = (Some collection, db1)"
    using ex by (cases "getCollection opCtx db ns") (auto dest: getCollection_steps)
  note g1 = getCollection_steps [OF g]
  from ok g have e: "dropCollectionEvenIfSystem ops opCtx db1 ns dropOpTime = Inr (StatusOK, db')"
    by (auto simp: dropCollection_def getCollection_ns_def split: if_splits)
  have ex1: "collections db1 ns = Some collection"
    using g1 ex by simp
  from dropCollectionEvenIfSystem_outcome [OF ex1 nul e] g1 show ?thesis
    by (simp add: dropOutcome_def Let_def)
qed

theorem dropCollection_phases_witness:
  "collections sampleDatabase ''db.c'' = Some sampleCollection
   \<and> isNull (0, 0)
   \<and> (\<exists>db'. dropCollection sampleNsOps sampleOpCtx sampleDatabase ''db.c'' (0, 0)
               = Inr (StatusOK, db')
            \<and> dropSteps db' =
                [DropIndex ''db.c'' ''a_long_index_name'',
                 OnDropIndex ''db.c'' ''a_long_index_name'',
                 OnDropCollection ''db.c'' (Some 7),
                 DbEntryRenameCollection ''db.c'' ''db.system.drop.iiiii.c'' True,
                 AddDropPendingNamespace (5, 1) ''db.system.drop.iiiii.c'']
            \<and> dropPendingNamespaces db' = [((5, 1), ''db.system.drop.iiiii.c'')]
            \<and> collections db' ''db.c'' = None)"
proof -
  have ex: "collections sampleDatabase ''db.c'' = Some sampleCollection"
    by (simp add: sampleDatabase_def)
  have nul: "isNull (0, 0)"
    by (simp add: isNull_def)
  have "\<exists>db'. dropCollection sampleNsOps sampleOpCtx sampleDatabase ''db.c'' (0, 0)
               = Inr (StatusOK, db')"
    by (simp add: drop_eval)
  then obtain db' where
    ok: "dropCollection sampleNsOps sampleOpCtx sampleDatabase ''db.c'' (0, 0)
           = Inr (StatusOK, db')" ..
  have r5: "replicate 5 CHR ''i'' = ''iiiii''"
    by (simp add: numeral_eq_Suc)
  have "dropOutcome sampleNsOps sampleOpCtx ''db.c'' sampleCollection sampleDatabase db'"
    by (rule dropCollection_phases [OF ex nul ok])
  then have "dropSteps db' =
                [DropIndex ''db.c'' ''a_long_index_name'',
                 OnDropIndex ''db.c'' ''a_long_index_name'',
                 OnDropCollection ''db.c'' (Some 7),
                 DbEntryRenameCollection ''db.c'' ''db.system.drop.iiiii.c'' True,
                 AddDropPendingNamespace (5, 1) ''db.system.drop.iiiii.c'']
            \<and> dropPendingNamespaces db' = [((5, 1), ''db.system.drop.iiiii.c'')]
            \<and> collections db' ''db.c'' = None"
    by (simp add: dropOutcome_def indexDropSteps_def indexesToDrop_def dropSteps_def
        sampleNsOps_def sampleOpCtx_def sampleDatabase_def sampleCollection_def
        isNull_def coll_of_def newIndexDescriptor_def getStringField_def getField_def
        kIndexNameFieldName_def kNamespaceFieldName_def Let_def r5)
  with ex nul ok show ?thesis by blast
qed

section \<open>Properties of unique namespace generation\<close>















section \<open>Properties of the storage engine metadata file\<close>

lemma path_append_tmp_differs:
  "path_append d (kMetadataBasename @ ''.tmp'') \<noteq> path_append d kMetadataBasename"
  "path_append d kMetadataBasename \<noteq> path_append d (kMetadataBasename @ ''.tmp'')"
  by (simp_all add: path_append_def kMetadataBasename_def)

lemma extract_engine:
  "extractElementAtPath
     [(''storage'', Object [(''engine'', BSONString e), (''options'', Object opts)])]
     ''storage.engine'' = (''engine'', BSONString e)"
  by (simp add: getField_def getObjectField_def eoo_def eooElement_def find_dot_def)

lemma extract_options:
  "extractElementAtPath
     [(''storage'', Object [(''engine'', BSONString e), (''options'', Object opts)])]
     ''storage.options'' = (''options'', Object opts)"
  by (simp add: getField_def getObjectField_def eoo_def eooElement_def find_dot_def)

text \<open>
  Claim C9. For every non-empty storage engine name and every options object, when the
  file operations succeed, \<open>write\<close> returns OK having written the document to the
  temporary file, synced it, renamed it onto the metadata file and flushed the directory,
  in this order and with no other file operation, and a \<open>read\<close> on the same dbpath then
  returns OK with the same engine name and the same options. Whatever the file operations
  answer, the metadata file is opened or written by none of them: it changes only through
  the rename, and when a step up to the rename fails it holds what it held before.
  \<open>write\<close> with an empty engine name returns BadValue, attempts no file operation and
  leaves every file as it was.
\<close>

theorem metadata_write_read_roundtrip:
  "(storageEngine m \<noteq> [] \<and> ioSucceeds io \<and> dbpath m' = dbpath m \<longrightarrow>
      (\<exists>fs'. metadata_write io fs m = (StatusOK, fs', writeToTempThenRename m)
         \<and> fs' (path_append (dbpath m) (kMetadataBasename @ ''.tmp'')) = None
         \<and> metadata_read io fs' m' =
             (StatusOK, m'\<lparr>storageEngine := storageEngine m,
                            storageEngineOptions := storageEngineOptions m\<rparr>)))
   \<and> (storageEngine m = [] \<longrightarrow> metadata_write io fs m = (StatusError BadValue, fs, []))
   \<and> (case metadata_write io fs m of
         (st, fs', ops) \<Rightarrow>
           list_all (\<lambda>op. touchesFile (path_append (dbpath m) ''storage.bson'') op
                           \<longrightarrow> op = RenameFile (path_append (dbpath m) ''storage.bson.tmp'')
                                       (path_append (dbpath m) ''storage.bson'')) ops
           \<and> (\<not> (ofstreamOpens io \<and> ofstreamWrites io \<and> fsyncFileOpens io
                    \<and> renameSucceeds io) \<longrightarrow>
                st \<noteq> StatusOK
                \<and> fs' (path_append (dbpath m) ''storage.bson'')
                    = fs (path_append (dbpath m) ''storage.bson''))
           \<and> (storageEngine m \<noteq> [] \<and> ofstreamOpens io \<and> ofstreamWrites io
                \<and> fsyncFileOpens io \<and> renameSucceeds io \<longrightarrow>
                fs' (path_append (dbpath m) ''storage.bson'')
                  = Some (BsonData (metadataDocument m))))"
proof -
  have neq: "path_append (dbpath m) ''storage.bson.tmp'' \<noteq> path_append (dbpath m) ''storage.bson''"
    "path_append (dbpath m) ''storage.bson'' \<noteq> path_append (dbpath m) ''storage.bson.tmp''"
    using path_append_tmp_differs [of "dbpath m"] by (simp_all add: kMetadataBasename_def)
  have p1: "\<exists>fs'. metadata_write io fs m = (StatusOK, fs', writeToTempThenRename m)
         \<and> fs' (path_append (dbpath m) (kMetadataBasename @ ''.tmp'')) = None
         \<and> metadata_read io fs' m' =
             (StatusOK, m'\<lparr>storageEngine := storageEngine m,
                            storageEngineOptions := storageEngineOptions m\<rparr>)"
    if "storageEngine m \<noteq> [] \<and> ioSucceeds io \<and> dbpath m' = dbpath m"
    using that neq
    by (auto simp: metadata_write_def metadata_read_def ioSucceeds_def Let_def reset_def
        path_append_tmp_differs extract_engine extract_options eoo_def
        writeToTempThenRename_def metadataDocument_def kMetadataBasename_def
        simp del: extractElementAtPath.simps)
  have p2: "metadata_write io fs m = (StatusError BadValue, fs, [])" if "storageEngine m = []"
    using that by (simp add: metadata_write_def)
  have p3: "case metadata_write io fs m of
         (st, fs', ops) \<Rightarrow>
           list_all (\<lambda>op. touchesFile (path_append (dbpath m) ''storage.bson'') op
                           \<longrightarrow> op = RenameFile (path_append (dbpath m) ''storage.bson.tmp'')
                                       (path_append (dbpath m) ''storage.bson'')) ops
           \<and> (\<not> (ofstreamOpens io \<and> ofstreamWrites io \<and> fsyncFileOpens io
                    \<and> renameSucceeds io) \<longrightarrow>
                st \<noteq> StatusOK
                \<and> fs' (path_append (dbpath m) ''storage.bson'')
                    = fs (path_append (dbpath m) ''storage.bson''))
           \<and> (storageEngine m \<noteq> [] \<and> ofstreamOpens io \<and> ofstreamWrites io
                \<and> fsyncFileOpens io \<and> renameSucceeds io \<longrightarrow>
                fs' (path_append (dbpath m) ''storage.bson'')
                  = Some (BsonData (metadataDocument m)))"
    using neq
    by (simp add: metadata_write_def Let_def kMetadataBasename_def metadataDocument_def)
  from p1 p2 p3 show ?thesis by blast
qed

theorem metadata_write_read_roundtrip_witness:
  "storageEngine sampleMetadata \<noteq> [] \<and> ioSucceeds sampleIO
   \<and> (\<exists>fs'. metadata_write sampleIO Map.empty sampleMetadata
               = (StatusOK, fs',
                  [OpenForOutput ''/data/db/storage.bson.tmp'',
                   WriteData ''/data/db/storage.bson.tmp'' (metadataDocument sampleMetadata),
                   FsyncFile ''/data/db/storage.bson.tmp'',
                   RenameFile ''/data/db/storage.bson.tmp'' ''/data/db/storage.bson'',
                   FlushMyDirectory ''/data/db/storage.bson''])
          \<and> metadata_read sampleIO fs' (reset sampleMetadata) = (StatusOK, sampleMetadata))
   \<and> metadata_write sampleIO [''/data/db/storage.bson'' \<mapsto> MalformedData]
        (reset sampleMetadata)
       = (StatusError BadValue, [''/data/db/storage.bson'' \<mapsto> MalformedData], [])
   \<and> (\<exists>st fs' ops.
         metadata_write (sampleIO\<lparr>ofstreamWrites := False\<rparr>)
           [''/data/db/storage.bson'' \<mapsto> MalformedData] sampleMetadata = (st, fs', ops)
         \<and> st \<noteq> StatusOK
         \<and> fs' ''/data/db/storage.bson'' = Some MalformedData)"
proof -
  have a: "storageEngine sampleMetadata \<noteq> []" "ioSucceeds sampleIO"
      "dbpath (reset sampleMetadata) = dbpath sampleMetadata"
      "storageEngine (reset sampleMetadata) = []"
    by (simp_all add: sampleMetadata_def sampleIO_def ioSucceeds_def reset_def)
  have b: "(reset sampleMetadata)\<lparr>storageEngine := storageEngine sampleMetadata,
             storageEngineOptions := storageEngineOptions sampleMetadata\<rparr> = sampleMetadata"
    by (simp add: reset_def sampleMetadata_def)
  have c: "writeToTempThenRename sampleMetadata =
             [OpenForOutput ''/data/db/storage.bson.tmp'',
              WriteData ''/data/db/storage.bson.tmp'' (metadataDocument sampleMetadata),
              FsyncFile ''/data/db/storage.bson.tmp'',
              RenameFile ''/data/db/storage.bson.tmp'' ''/data/db/storage.bson'',
              FlushMyDirectory ''/data/db/storage.bson'']"
    "path_append (dbpath sampleMetadata) ''storage.bson'' = ''/data/db/storage.bson''"
    by (simp_all add: writeToTempThenRename_def sampleMetadata_def path_append_def)
  obtain st fs' ops where
    w: "metadata_write (sampleIO\<lparr>ofstreamWrites := False\<rparr>)
          [''/data/db/storage.bson'' \<mapsto> MalformedData] sampleMetadata = (st, fs', ops)"
    by (rule prod_cases3)
  from metadata_write_read_roundtrip
         [of sampleMetadata "sampleIO\<lparr>ofstreamWrites := False\<rparr>" sampleMetadata
             "[''/data/db/storage.bson'' \<mapsto> MalformedData]"] w c(2)
  have d: "st \<noteq> StatusOK" "fs' ''/data/db/storage.bson'' = Some MalformedData"
    by simp_all
  from metadata_write_read_roundtrip
         [of sampleMetadata sampleIO "reset sampleMetadata" Map.empty]
       metadata_write_read_roundtrip
         [of "reset sampleMetadata" sampleIO sampleMetadata
             "[''/data/db/storage.bson'' \<mapsto> MalformedData]"]
       a b c w d
  show ?thesis by auto
qed

section \<open>Properties of deferred unlocking\<close>

lemma shouldDelayUnlock_cases:
  "getType resId \<noteq> RESOURCE_INVALID \<Longrightarrow> m \<noteq> MODE_NONE \<Longrightarrow>
     shouldDelayUnlock resId m = Done (deferredRelease resId m)"
  by (cases "getType resId"; cases m) (simp_all add: deferredRelease_def)

lemma unlockImpl_not_deferral:
  "unlockImpl th l resId \<noteq> Done (b, l\<lparr>resourcesToUnlockAtEndOfUnitOfWork := q\<rparr>)"
proof
  assume a: "unlockImpl th l resId = Done (b, l\<lparr>resourcesToUnlockAtEndOfUnitOfWork := q\<rparr>)"
  then obtain l' where d: "unlockImpl th l resId = Done (b, l')" and e: "calls l' = calls l"
    by simp
  from d have "length (calls l') > length (calls l)"
    by (auto simp: unlockImpl_def record_call_def Let_def
        split: option.splits prod.splits bool.splits if_splits)
  with e show False by simp
qed

lemma unlock_in_wuow:
  assumes "wuowNestingLevel l > 0" and "map_of (requests l) resId = Some request"
    and "getType resId \<noteq> RESOURCE_INVALID" and "mode request \<noteq> MODE_NONE"
  shows "unlock th l resId =
           (if deferredRelease resId (mode request)
            then Done (False, l\<lparr>resourcesToUnlockAtEndOfUnitOfWork :=
                                   resourcesToUnlockAtEndOfUnitOfWork l @ [resId]\<rparr>)
            else unlockImpl th l resId)"
  using assms
  by (simp add: unlock_def inAWriteUnitOfWork_def shouldDelayUnlock_cases bindRun_def
      del: shouldDelayUnlock.simps)

lemma map_of_filter_key:
  "map_of (filter (\<lambda>e. fst e \<noteq> k) xs) r = (if r = k then None else map_of xs r)"
  by (induction xs) auto

lemma map_of_replace_key:
  "map_of (map (\<lambda>e. if fst e = k then (k, v) else e) xs) r =
     (if r = k then (case map_of xs k of None \<Rightarrow> None | Some old \<Rightarrow> Some v) else map_of xs r)"
  by (induction xs) auto

lemma unlockImpl_requests:
  assumes "unlockImpl th l resId = Done (b, l')"
  shows "map_of (requests l') r =
           (if r = resId then releasedTimes (map_of (requests l) resId) 1
            else map_of (requests l) r)"
    and "wuowNestingLevel l' = wuowNestingLevel l"
    and "resourcesToUnlockAtEndOfUnitOfWork l' = resourcesToUnlockAtEndOfUnitOfWork l"
  using assms
  by (auto simp: unlockImpl_def record_call_def Let_def lockManager_unlock_def
      map_of_filter_key map_of_replace_key releasedTimes_def
      split: option.splits prod.splits bool.splits if_splits)

lemma releasedTimes_Suc:
  "releasedTimes (releasedTimes entry (Suc 0)) n = releasedTimes entry (Suc n)"
  by (auto simp: releasedTimes_def split: option.splits)

lemma unlockDeferred_requests:
  "unlockDeferred th l queue = Done l' \<Longrightarrow> \<not> wuowNestingLevel l > 0 \<Longrightarrow>
     resourcesToUnlockAtEndOfUnitOfWork l' = []
     \<and> wuowNestingLevel l' = wuowNestingLevel l
     \<and> (\<forall>r. map_of (requests l') r = releasedTimes (map_of (requests l) r) (count_list queue r))"
proof (induction queue arbitrary: l)
  case Nil
  then show ?case by (auto simp: releasedTimes_def split: option.splits)
next
  case (Cons front rest)
  from Cons.prems obtain b l1 where
    u: "unlock th l front = Done (b, l1)"
    and d: "unlockDeferred th (l1\<lparr>resourcesToUnlockAtEndOfUnitOfWork := rest\<rparr>) rest = Done l'"
    by (auto simp: bindRun_def split: Run.splits)
  from u Cons.prems(2) have ui: "unlockImpl th l front = Done (b, l1)"
    by (auto simp: unlock_def inAWriteUnitOfWork_def split: option.splits)
  note r1 = unlockImpl_requests [OF ui]
  let ?l2 = "l1\<lparr>resourcesToUnlockAtEndOfUnitOfWork := rest\<rparr>"
  have lev: "\<not> wuowNestingLevel ?l2 > 0"
    using r1(2) Cons.prems(2) by simp
  from Cons.IH [OF d lev] r1 show ?case
    by (auto simp: releasedTimes_Suc)
qed

lemma unlockImpl_returns:
  assumes "map_of (requests l) resId = Some request"
    and "resId \<noteq> resourceIdGlobal"
  shows "\<exists>b l'. unlockImpl th l resId = Done (b, l')"
  using assms
  by (auto simp: unlockImpl_def Let_def split: prod.splits bool.splits)

lemma unlockDeferred_returns:
  "\<not> wuowNestingLevel l > 0 \<Longrightarrow>
   list_all (\<lambda>r. r \<noteq> resourceIdGlobal \<and>
                (case map_of (requests l) r of
                   None \<Rightarrow> False
                 | Some request \<Rightarrow> count_list queue r \<le> recursiveCount request)) queue \<Longrightarrow>
   \<exists>l'. unlockDeferred th l queue = Done l'"
proof (induction queue arbitrary: l)
  case Nil
  then show ?case by simp
next
  case (Cons front rest)
  from Cons.prems(2) obtain request where
    ng: "front \<noteq> resourceIdGlobal"
    and held: "map_of (requests l) front = Some request"
    and cnt: "Suc (count_list rest front) \<le> recursiveCount request"
    by (auto split: option.splits)
  from unlockImpl_returns [OF held ng] obtain b l1 where
    ui: "unlockImpl th l front = Done (b, l1)" by blast
  with Cons.prems(1) held have u: "unlock th l front = Done (b, l1)"
    by (simp add: unlock_def inAWriteUnitOfWork_def)
  note r1 = unlockImpl_requests [OF ui]
  let ?l2 = "l1\<lparr>resourcesToUnlockAtEndOfUnitOfWork := rest\<rparr>"
  have lev: "\<not> wuowNestingLevel ?l2 > 0"
    using r1(2) Cons.prems(1) by simp
  have "list_all (\<lambda>r. r \<noteq> resourceIdGlobal \<and>
                (case map_of (requests ?l2) r of
                   None \<Rightarrow> False
                 | Some request \<Rightarrow> count_list rest r \<le> recursiveCount request)) rest"
    unfolding list_all_iff
  proof
    fix r assume rin: "r \<in> set rest"
    with Cons.prems(2) obtain q where
      a: "r \<noteq> resourceIdGlobal" and b: "map_of (requests l) r = Some q"
      and c: "count_list (front # rest) r \<le> recursiveCount q"
      by (auto simp: list_all_iff split: option.splits)
    show "r \<noteq> resourceIdGlobal \<and>
          (case map_of (requests ?l2) r of
             None \<Rightarrow> False
           | Some request \<Rightarrow> count_list rest r \<le> recursiveCount request)"
    proof (cases "r = front")
      case False
      with a b c r1(1) [of r] show ?thesis by simp
    next
      case True
      from rin True have "count_list rest front \<noteq> 0"
        by (simp add: count_list_0_iff)
      then have "0 < count_list rest front" by simp
      with True b c held r1(1) [of r] a show ?thesis
        by (auto simp: releasedTimes_def)
    qed
  qed
  from Cons.IH [OF lev this] u show ?case
    by (auto simp: bindRun_def)
qed

text \<open>
  Claim C1 as stated defers exactly for database and collection resources. A metadata
  resource held in mode X is deferred as well: inside a write unit of work \<open>unlock\<close>
  returns false, keeps the lock and queues the resource.
\<close>

theorem unlock_metadata_deferred_counterexample:
  "getType (ResourceId RESOURCE_METADATA (NameHash ''m'')) = RESOURCE_METADATA
   \<and> wuowNestingLevel sampleLocker = 1
   \<and> map_of (requests sampleLocker) (ResourceId RESOURCE_METADATA (NameHash ''m''))
       = Some (grantedRequest MODE_X 1)
   \<and> unlock initialTicketHolders sampleLocker (ResourceId RESOURCE_METADATA (NameHash ''m''))
       = Done (False, sampleLocker\<lparr>resourcesToUnlockAtEndOfUnitOfWork :=
                                      [ResourceId RESOURCE_METADATA (NameHash ''m'')]\<rparr>)"
  by (simp add: unlock_def sampleLocker_def grantedRequest_def inAWriteUnitOfWork_def
      bindRun_def resourceIdGlobal_def)

text \<open>
  Claim C1, amended. For every locker, every valid resource R held in a mode M: a call
  to \<open>unlock(R)\<close> made while the nesting depth is positive defers the release (returns
  false, leaves the lock held and pushes R on the deferred queue) exactly when R is a
  database, collection or metadata resource and M is X or IX. An inner
  \<open>endWriteUnitOfWork\<close> only lowers the depth. The outermost one, when the queued
  resources are held often enough, returns, and then the queue is empty and every queue
  entry has released one reference of its resource: the request is gone when its count
  reached zero.
\<close>

theorem unlock_deferral_and_endWriteUnitOfWork:
  "(wuowNestingLevel l > 0 \<and> map_of (requests l) resId = Some request
      \<and> getType resId \<noteq> RESOURCE_INVALID \<and> mode request \<noteq> MODE_NONE \<longrightarrow>
      (unlock th l resId =
         Done (False, l\<lparr>resourcesToUnlockAtEndOfUnitOfWork :=
                          resourcesToUnlockAtEndOfUnitOfWork l @ [resId]\<rparr>))
        = deferredRelease resId (mode request))
   \<and> (wuowNestingLevel l > 1 \<longrightarrow>
        endWriteUnitOfWork th l = Done (l\<lparr>wuowNestingLevel := wuowNestingLevel l - 1\<rparr>))
   \<and> (wuowNestingLevel l = 1 \<and> deferredAreHeld l \<longrightarrow>
        (\<exists>l'. endWriteUnitOfWork th l = Done l'))
   \<and> (wuowNestingLevel l = 1 \<and> endWriteUnitOfWork th l = Done l' \<longrightarrow>
        resourcesToUnlockAtEndOfUnitOfWork l' = [] \<and> wuowNestingLevel l' = 0
        \<and> (\<forall>r. map_of (requests l') r =
                  releasedTimes (map_of (requests l) r)
                    (count_list (resourcesToUnlockAtEndOfUnitOfWork l) r)))"
proof -
  have p1: "(unlock th l resId =
         Done (False, l\<lparr>resourcesToUnlockAtEndOfUnitOfWork :=
                          resourcesToUnlockAtEndOfUnitOfWork l @ [resId]\<rparr>))
        = deferredRelease resId (mode request)"
    if a: "wuowNestingLevel l > 0" "map_of (requests l) resId = Some request"
      "getType resId \<noteq> RESOURCE_INVALID" "mode request \<noteq> MODE_NONE"
  proof -
    have u: "unlock th l resId =
           (if deferredRelease resId (mode request)
            then Done (False, l\<lparr>resourcesToUnlockAtEndOfUnitOfWork :=
                                   resourcesToUnlockAtEndOfUnitOfWork l @ [resId]\<rparr>)
            else unlockImpl th l resId)"
      using a by (rule unlock_in_wuow)
    show ?thesis
      using u unlockImpl_not_deferral [of th l resId False] by auto
  qed
  have p2: "endWriteUnitOfWork th l = Done (l\<lparr>wuowNestingLevel := wuowNestingLevel l - 1\<rparr>)"
    if "wuowNestingLevel l > 1"
    using that by (simp add: endWriteUnitOfWork_def Let_def)
  let ?l1 = "l\<lparr>wuowNestingLevel := wuowNestingLevel l - 1\<rparr>"
  have p3: "\<exists>l'. endWriteUnitOfWork th l = Done l'"
    if a: "wuowNestingLevel l = 1" "deferredAreHeld l"
  proof -
    have lev: "\<not> wuowNestingLevel ?l1 > 0" using a by simp
    have "\<exists>l'. unlockDeferred th ?l1 (resourcesToUnlockAtEndOfUnitOfWork l) = Done l'"
      using a by (intro unlockDeferred_returns [OF lev]) (simp add: deferredAreHeld_def)
    with a show ?thesis
      by (simp add: endWriteUnitOfWork_def Let_def)
  qed
  have p4: "resourcesToUnlockAtEndOfUnitOfWork l' = [] \<and> wuowNestingLevel l' = 0
        \<and> (\<forall>r. map_of (requests l') r =
                  releasedTimes (map_of (requests l) r)
                    (count_list (resourcesToUnlockAtEndOfUnitOfWork l) r))"
    if a: "wuowNestingLevel l = 1" "endWriteUnitOfWork th l = Done l'"
  proof -
    have lev: "\<not> wuowNestingLevel ?l1 > 0" using a by simp
    from a have d: "unlockDeferred th ?l1 (resourcesToUnlockAtEndOfUnitOfWork l) = Done l'"
      by (simp add: endWriteUnitOfWork_def Let_def)
    from unlockDeferred_requests [OF d lev] a show ?thesis
      by simp
  qed
  from p1 p2 p3 p4 show ?thesis by blast
qed

theorem unlock_deferral_and_endWriteUnitOfWork_witness:
  "deferredRelease (ResourceId RESOURCE_COLLECTION (NameHash ''db.c'')) MODE_X
   \<and> unlock initialTicketHolders sampleLocker (ResourceId RESOURCE_COLLECTION (NameHash ''db.c''))
       = Done (False, sampleLocker\<lparr>resourcesToUnlockAtEndOfUnitOfWork :=
                                      [ResourceId RESOURCE_COLLECTION (NameHash ''db.c'')]\<rparr>)
   \<and> endWriteUnitOfWork initialTicketHolders (sampleLocker\<lparr>wuowNestingLevel := 2\<rparr>)
       = Done (sampleLocker\<lparr>wuowNestingLevel := 1\<rparr>)
   \<and> (\<exists>l'. endWriteUnitOfWork initialTicketHolders
              (sampleLocker\<lparr>resourcesToUnlockAtEndOfUnitOfWork :=
                 [ResourceId RESOURCE_COLLECTION (NameHash ''db.c''),
                  ResourceId RESOURCE_DATABASE (NameHash ''db''),
                  ResourceId RESOURCE_COLLECTION (NameHash ''db.c'')]\<rparr>) = Done l'
          \<and> resourcesToUnlockAtEndOfUnitOfWork l' = []
          \<and> map_of (requests l') (ResourceId RESOURCE_COLLECTION (NameHash ''db.c'')) = None
          \<and> map_of (requests l') (ResourceId RESOURCE_DATABASE (NameHash ''db'')) = None
          \<and> map_of (requests l') (ResourceId RESOURCE_METADATA (NameHash ''m''))
              = Some (grantedRequest MODE_X 1))"
proof -
  let ?C = "ResourceId RESOURCE_COLLECTION (NameHash ''db.c'')"
  let ?D = "ResourceId RESOURCE_DATABASE (NameHash ''db'')"
  let ?M = "ResourceId RESOURCE_METADATA (NameHash ''m'')"
  let ?L3 = "sampleLocker\<lparr>resourcesToUnlockAtEndOfUnitOfWork := [?C, ?D, ?C]\<rparr>"
  have h1: "wuowNestingLevel sampleLocker > 0"
      "map_of (requests sampleLocker) ?C = Some (grantedRequest MODE_X 2)"
      "getType ?C \<noteq> RESOURCE_INVALID" "mode (grantedRequest MODE_X 2) \<noteq> MODE_NONE"
      "deferredRelease ?C (mode (grantedRequest MODE_X 2))"
      "deferredRelease ?C MODE_X"
    by (simp_all add: sampleLocker_def grantedRequest_def resourceIdGlobal_def
        deferredRelease_def)
  have a: "unlock initialTicketHolders sampleLocker ?C
       = Done (False, sampleLocker\<lparr>resourcesToUnlockAtEndOfUnitOfWork := [?C]\<rparr>)"
    using unlock_deferral_and_endWriteUnitOfWork
            [of sampleLocker ?C "grantedRequest MODE_X 2" initialTicketHolders] h1
    by (simp add: sampleLocker_def)
  have b: "endWriteUnitOfWork initialTicketHolders (sampleLocker\<lparr>wuowNestingLevel := 2\<rparr>)
       = Done (sampleLocker\<lparr>wuowNestingLevel := 1\<rparr>)"
    using unlock_deferral_and_endWriteUnitOfWork
            [of "sampleLocker\<lparr>wuowNestingLevel := 2\<rparr>" ?C "grantedRequest MODE_X 2"
                initialTicketHolders]
    by simp
  have h3: "wuowNestingLevel ?L3 = 1" "deferredAreHeld ?L3"
    by (simp_all add: sampleLocker_def deferredAreHeld_def grantedRequest_def
        resourceIdGlobal_def)
  from unlock_deferral_and_endWriteUnitOfWork
            [of ?L3 ?C "grantedRequest MODE_X 2" initialTicketHolders] h3
  obtain l' where e: "endWriteUnitOfWork initialTicketHolders ?L3 = Done l'"
    by blast
  from unlock_deferral_and_endWriteUnitOfWork
            [of ?L3 ?C "grantedRequest MODE_X 2" initialTicketHolders l'] h3 e
  have f: "resourcesToUnlockAtEndOfUnitOfWork l' = []"
    "\<forall>r. map_of (requests l') r =
           releasedTimes (map_of (requests ?L3) r)
             (count_list (resourcesToUnlockAtEndOfUnitOfWork ?L3) r)"
    by blast+
  have g: "map_of (requests l') ?C = None" "map_of (requests l') ?D = None"
    "map_of (requests l') ?M = Some (grantedRequest MODE_X 1)"
    by (simp_all add: f(2) sampleLocker_def releasedTimes_def grantedRequest_def
        resourceIdGlobal_def)
  from h1(6) a b e f(1) g show ?thesis by blast
qed

section \<open>Properties of the ticket phase of the global lock\<close>

lemma lockBegin_calls:
  "lockBegin env l resId m = (r, l') \<Longrightarrow>
     calls l' = calls l @ [lockManagerCall l resId m]
     \<and> clientState l' = clientState l \<and> modeForTicket l' = modeForTicket l
     \<and> wuowNestingLevel l' = wuowNestingLevel l
     \<and> resourcesToUnlockAtEndOfUnitOfWork l' = resourcesToUnlockAtEndOfUnitOfWork l"
  by (auto simp: lockBegin_def Let_def record_call_def lockManagerCall_def
      split: prod.splits if_splits)

lemma setClientState_fields [simp]:
  "calls (setClientState s l) = calls l @ [SetClientState s]"
  "clientState (setClientState s l) = s"
  "requests (setClientState s l) = requests l"
  "modeForTicket (setClientState s l) = modeForTicket l"
  "wuowNestingLevel (setClientState s l) = wuowNestingLevel l"
  "resourcesToUnlockAtEndOfUnitOfWork (setClientState s l) = resourcesToUnlockAtEndOfUnitOfWork l"
  by (simp_all add: setClientState_def record_call_def)

lemma record_call_fields [simp]:
  "calls (record_call e l) = calls l @ [e]"
  "clientState (record_call e l) = clientState l"
  "requests (record_call e l) = requests l"
  "modeForTicket (record_call e l) = modeForTicket l"
  "wuowNestingLevel (record_call e l) = wuowNestingLevel l"
  "resourcesToUnlockAtEndOfUnitOfWork (record_call e l) = resourcesToUnlockAtEndOfUnitOfWork l"
  by (simp_all add: record_call_def)

text \<open>
  Claim C4. With the pools set by \<open>setGlobalThrottling\<close> and a locker that holds no
  ticket: a request in mode S or IS waits on the reader pool, one in mode IX on the
  writer pool, one in mode X on none; the client state is set to QueuedReader or
  QueuedWriter before the wait and to ActiveReader or ActiveWriter after it, and the lock
  manager is called only then; when a bounded wait gets no ticket the state becomes
  Inactive and LOCK_TIMEOUT is returned with no call to the lock manager and no request
  added; an unbounded wait without a ticket does not return.
\<close>

theorem lockGlobalBegin_tickets:
  assumes th: "ticketHolders env =
                 setGlobalThrottling (Some reading) (Some writing) initialTicketHolders"
    and mft: "modeForTicket l = MODE_NONE"
  shows "ticketPhase env reading writing l m timeout (lockGlobalBegin env l m timeout)"
proof -
  have pool: "ticketHolders env m = ticketPoolFor reading writing m"
    by (cases m) (simp_all add: th setGlobalThrottling_def initialTicketHolders_def
        ticketPoolFor_def)
  have st: "(if isSharedLockMode m then kActiveReader else kActiveWriter) = activeState m"
    "(if isSharedLockMode m then kQueuedReader else kQueuedWriter) = queuedState m"
    by (auto simp: isSharedLockMode_def activeState_def queuedState_def)
  show ?thesis
  proof (cases "ticketPoolFor reading writing m")
    case None
    obtain r l' where lb: "lockBegin env ((setClientState (activeState m) l)
                             \<lparr>modeForTicket := m\<rparr>) resourceIdGlobal m = (r, l')"
      by (cases "lockBegin env ((setClientState (activeState m) l)
                             \<lparr>modeForTicket := m\<rparr>) resourceIdGlobal m")
    from lockBegin_calls [OF lb] lb None pool mft st show ?thesis
      by (simp add: ticketPhase_def lockGlobalBegin_def Let_def lockManagerCall_def)
  next
    case (Some p)
    let ?l1 = "record_call (ticketWait p timeout) (setClientState (queuedState m) l)"
    obtain r l' where lb: "lockBegin env ((setClientState (activeState m) ?l1)
                             \<lparr>modeForTicket := m\<rparr>) resourceIdGlobal m = (r, l')"
      by (cases "lockBegin env ((setClientState (activeState m) ?l1)
                             \<lparr>modeForTicket := m\<rparr>) resourceIdGlobal m")
    from lockBegin_calls [OF lb] lb Some pool mft st show ?thesis
      by (auto simp: ticketPhase_def lockGlobalBegin_def Let_def lockManagerCall_def
          ticketWait_def)
  qed
qed

theorem lockGlobalBegin_tickets_witness:
  "ticketHolders sampleLockEnv =
     setGlobalThrottling (Some 1) (Some 2) initialTicketHolders
   \<and> modeForTicket newLocker = MODE_NONE
   \<and> (\<exists>r l'. lockGlobalBegin sampleLockEnv newLocker MODE_IS Milliseconds_max = Done (r, l')
          \<and> calls l' = [SetClientState kQueuedReader, WaitForTicket 1,
                         SetClientState kActiveReader,
                         LockManagerLock resourceIdGlobal MODE_IS]
          \<and> clientState l' = kActiveReader)
   \<and> (\<exists>r l'. lockGlobalBegin sampleLockEnv newLocker MODE_X Milliseconds_max = Done (r, l')
          \<and> calls l' = [SetClientState kActiveWriter,
                         LockManagerLock resourceIdGlobal MODE_X])
   \<and> (\<exists>l'. lockGlobalBegin sampleLockEnv newLocker MODE_IX 100 = Done (LOCK_TIMEOUT, l')
          \<and> calls l' = [SetClientState kQueuedWriter, WaitForTicketUntil 2 100,
                         SetClientState kInactive]
          \<and> clientState l' = kInactive \<and> requests l' = [])"
proof -
  have th: "ticketHolders sampleLockEnv =
              setGlobalThrottling (Some 1) (Some 2) initialTicketHolders"
    by (simp add: sampleLockEnv_def)
  have mft: "modeForTicket newLocker = MODE_NONE"
    by (simp add: newLocker_def)
  have av: "ticketAvailable sampleLockEnv 1" "\<not> ticketAvailable sampleLockEnv 2"
    by (simp_all add: sampleLockEnv_def)
  note t = lockGlobalBegin_tickets [OF th mft]
  have a: "\<exists>r l'. lockGlobalBegin sampleLockEnv newLocker MODE_IS Milliseconds_max = Done (r, l')
          \<and> calls l' = [SetClientState kQueuedReader, WaitForTicket 1,
                         SetClientState kActiveReader,
                         LockManagerLock resourceIdGlobal MODE_IS]
          \<and> clientState l' = kActiveReader"
    using t [of MODE_IS Milliseconds_max] av
    by (auto simp: ticketPhase_def ticketPoolFor_def queuedState_def activeState_def
        ticketWait_def lockManagerCall_def newLocker_def
        split: Run.splits)
  have b: "\<exists>r l'. lockGlobalBegin sampleLockEnv newLocker MODE_X Milliseconds_max = Done (r, l')
          \<and> calls l' = [SetClientState kActiveWriter,
                         LockManagerLock resourceIdGlobal MODE_X]"
    using t [of MODE_X Milliseconds_max] av
    by (auto simp: ticketPhase_def ticketPoolFor_def queuedState_def activeState_def
        ticketWait_def lockManagerCall_def newLocker_def
        split: Run.splits)
  have c: "\<exists>l'. lockGlobalBegin sampleLockEnv newLocker MODE_IX 100 = Done (LOCK_TIMEOUT, l')
          \<and> calls l' = [SetClientState kQueuedWriter, WaitForTicketUntil 2 100,
                         SetClientState kInactive]
          \<and> clientState l' = kInactive \<and> requests l' = []"
    using t [of MODE_IX 100] av
    by (auto simp: ticketPhase_def ticketPoolFor_def queuedState_def activeState_def
        ticketWait_def lockManagerCall_def newLocker_def Milliseconds_max_def
        split: Run.splits)
  from th mft a b c show ?thesis by blast
qed

section \<open>Properties of waiting for a lock\<close>

lemma lockCompleteLoop_trace:
  "lockCompleteLoop timeout cd start ws waitTime l = Done (r, l1) \<Longrightarrow> waitTime \<le> 500 \<Longrightarrow>
     \<exists>new. calls l1 = calls l @ new \<and> waitLoopTrace cd r new
       \<and> requests l1 = requests l \<and> modeForTicket l1 = modeForTicket l
       \<and> clientState l1 = clientState l"
proof (induction ws arbitrary: waitTime l)
  case Nil
  then show ?case by simp
next
  case (Cons w ws)
  let ?l1 = "record_call (NotifyWait waitTime) l"
  let ?l2 = "if cd then record_call (DeadlockCheck False) ?l1 else ?l1"
  let ?total = "totalBlockTime (curTimeMicros w) start"
  let ?wt = "if ?total < timeout then min (timeout - ?total) DeadlockTimeout else 0"
  show ?case
  proof (cases "granted w")
    case True
    with Cons.prems show ?thesis
      by (auto simp: Let_def waitLoopTrace_def)
  next
    case ng: False
    show ?thesis
    proof (cases "cd \<and> hasCycle w")
      case True
      with ng Cons.prems show ?thesis
        by (auto simp: Let_def waitLoopTrace_def)
    next
      case nc: False
      have ext: "\<exists>new. calls l1 = calls l @ new \<and> waitLoopTrace cd r new
           \<and> requests l1 = requests l \<and> modeForTicket l1 = modeForTicket l
           \<and> clientState l1 = clientState l"
        if rec: "lockCompleteLoop timeout cd start ws wt ?l2 = Done (r, l1)"
          and b: "wt \<le> 500" for wt
      proof -
        from Cons.IH [OF rec b] obtain new where
          n: "calls l1 = calls ?l2 @ new" "waitLoopTrace cd r new"
             "requests l1 = requests l" "modeForTicket l1 = modeForTicket l"
             "clientState l1 = clientState l"
          by auto
        let ?pre = "NotifyWait waitTime # (if cd then [DeadlockCheck False] else [])"
        have c: "calls l1 = calls l @ (?pre @ new)"
          using n(1) by simp
        have "waitLoopTrace cd r (?pre @ new)"
          using n(2) Cons.prems(2) by (auto simp: waitLoopTrace_def)
        with c n show ?thesis by blast
      qed
      show ?thesis
      proof (cases "timeout = Milliseconds_max")
        case True
        with ng nc Cons.prems(1) have
          "lockCompleteLoop timeout cd start ws waitTime ?l2 = Done (r, l1)"
          by (auto simp: Let_def)
        from ext [OF this Cons.prems(2)] show ?thesis .
      next
        case nm: False
        show ?thesis
        proof (cases "?wt = 0")
          case True
          with ng nc nm Cons.prems show ?thesis
            by (auto simp: Let_def waitLoopTrace_def split: if_splits)
        next
          case False
          with ng nc nm Cons.prems(1) have
            rec: "lockCompleteLoop timeout cd start ws ?wt ?l2 = Done (r, l1)"
            by (auto simp: Let_def split: if_splits)
          have "?wt \<le> 500" by (simp add: DeadlockTimeout_def)
          from ext [OF rec this] show ?thesis .
        qed
      qed
    qed
  qed
qed

lemma map_of_update_key:
  "map_of (map (\<lambda>e. if fst e = k then (k, f (snd e)) else e) xs) r =
     (if r = k then map_option f (map_of xs k) else map_of xs r)"
  by (induction xs) auto

lemma waitTime_zero:
  "((if blocked < timeout then min (timeout - blocked) DeadlockTimeout else 0) = 0)
     = (timeout \<le> (blocked::int))"
  by (auto simp: DeadlockTimeout_def)

lemma lockCompleteLoop_step:
  "\<not> waitEnds cd timeout start v \<Longrightarrow>
     \<exists>wt l2. lockCompleteLoop timeout cd start (v # vs) waitTime l
               = lockCompleteLoop timeout cd start vs wt l2
       \<and> requests l2 = requests l \<and> modeForTicket l2 = modeForTicket l"
proof -
  assume n: "\<not> waitEnds cd timeout start v"
  let ?l1 = "record_call (NotifyWait waitTime) l"
  let ?l2 = "if cd then record_call (DeadlockCheck False) ?l1 else ?l1"
  let ?total = "totalBlockTime (curTimeMicros v) start"
  let ?wt = "if ?total < timeout then min (timeout - ?total) DeadlockTimeout else 0"
  have rq: "requests ?l2 = requests l \<and> modeForTicket ?l2 = modeForTicket l"
    by (simp add: record_call_def)
  show ?thesis
  proof (cases "timeout = Milliseconds_max")
    case True
    with n have "lockCompleteLoop timeout cd start (v # vs) waitTime l
                   = lockCompleteLoop timeout cd start vs waitTime ?l2"
      by (auto simp: waitEnds_def Let_def)
    with rq show ?thesis by blast
  next
    case False
    with n have "\<not> timeout \<le> ?total" by (simp add: waitEnds_def timedOut_def)
    then have "?wt \<noteq> 0" by (simp only: waitTime_zero) simp
    with n False have "lockCompleteLoop timeout cd start (v # vs) waitTime l
                   = lockCompleteLoop timeout cd start vs ?wt ?l2"
      by (auto simp: waitEnds_def Let_def)
    with rq show ?thesis by blast
  qed
qed

lemma lockCompleteLoop_last:
  "waitEnds cd timeout start w \<Longrightarrow>
     \<exists>l1. lockCompleteLoop timeout cd start (w # ws) waitTime l
             = Done (wakeupResult cd w, l1)
       \<and> requests l1 = requests l \<and> modeForTicket l1 = modeForTicket l"
proof -
  assume e: "waitEnds cd timeout start w"
  let ?total = "totalBlockTime (curTimeMicros w) start"
  let ?wt = "if ?total < timeout then min (timeout - ?total) DeadlockTimeout else 0"
  show ?thesis
  proof (cases "granted w \<or> (cd \<and> hasCycle w)")
    case True
    then show ?thesis
      by (auto simp: wakeupResult_def Let_def record_call_def)
  next
    case False
    with e have t: "timeout \<noteq> Milliseconds_max" "timeout \<le> ?total"
      by (auto simp: waitEnds_def timedOut_def)
    from t(2) have "?wt = 0" by (simp only: waitTime_zero)
    with False t(1) show ?thesis
      by (auto simp: wakeupResult_def Let_def record_call_def)
  qed
qed

lemma lockCompleteLoop_ends:
  assumes "list_all (\<lambda>v. \<not> waitEnds cd timeout start v) pre"
    and "waitEnds cd timeout start w"
  shows "\<exists>l1. lockCompleteLoop timeout cd start (pre @ w # ws) waitTime l
               = Done (wakeupResult cd w, l1)
             \<and> requests l1 = requests l \<and> modeForTicket l1 = modeForTicket l"
  using assms(1)
proof (induction pre arbitrary: l waitTime)
  case Nil
  from lockCompleteLoop_last [OF assms(2)] show ?case by simp
next
  case (Cons v pre)
  from Cons.prems have q: "\<not> waitEnds cd timeout start v"
    and rest: "list_all (\<lambda>v. \<not> waitEnds cd timeout start v) pre"
    by simp_all
  from lockCompleteLoop_step [OF q, of "pre @ w # ws" waitTime l] obtain wt l2 where
    s: "lockCompleteLoop timeout cd start (v # pre @ w # ws) waitTime l
          = lockCompleteLoop timeout cd start (pre @ w # ws) wt l2"
    and r: "requests l2 = requests l" "modeForTicket l2 = modeForTicket l"
    by blast
  from Cons.IH [OF rest, of wt l2] s r show ?case by simp
qed

lemma lockCompleteLoop_decompose:
  "lockCompleteLoop timeout cd start ws0 waitTime l = Done (r, l1) \<Longrightarrow>
     \<exists>pre w ws. ws0 = pre @ w # ws
       \<and> list_all (\<lambda>v. \<not> waitEnds cd timeout start v) pre
       \<and> waitEnds cd timeout start w \<and> r = wakeupResult cd w"
proof (induction ws0 arbitrary: waitTime l)
  case Nil
  then show ?case by simp
next
  case (Cons v vs)
  show ?case
  proof (cases "waitEnds cd timeout start v")
    case True
    from lockCompleteLoop_last [OF True, of vs waitTime l] Cons.prems
    have "r = wakeupResult cd v" by auto
    with True show ?thesis
      by (intro exI [of _ "[]"] exI [of _ v] exI [of _ vs]) simp
  next
    case False
    from lockCompleteLoop_step [OF False, of vs waitTime l] Cons.prems obtain wt l2 where
      "lockCompleteLoop timeout cd start vs wt l2 = Done (r, l1)"
      by auto
    from Cons.IH [OF this] obtain pre w ws where
      d: "vs = pre @ w # ws" "list_all (\<lambda>v. \<not> waitEnds cd timeout start v) pre"
         "waitEnds cd timeout start w" "r = wakeupResult cd w"
      by blast
    with False show ?thesis
      by (intro exI [of _ "v # pre"] exI [of _ w] exI [of _ ws]) simp
  qed
qed

lemma unlockImpl_calls:
  "unlockImpl th l resId = Done (b, l') \<Longrightarrow>
     \<exists>more. calls l' = calls l @ LockManagerUnlock resId # more"
  by (auto simp: unlockImpl_def Let_def
      split: option.splits prod.splits bool.splits if_splits)

text \<open>
  Claim C2. Whenever \<open>lockComplete\<close> returns, each sleep on the grant notification was
  at most 500 ms long; with deadlock checking, every wakeup that found the lock not
  granted ran the detector, and the result is LOCK_DEADLOCK exactly when it saw a cycle;
  for every result other than LOCK_OK the request for the resource was unlocked before
  the return; and the result is the one of the first wakeup that ends the wait: LOCK_OK
  for a grant, else LOCK_DEADLOCK when checking was asked for and a cycle exists, else
  LOCK_TIMEOUT. And it does return, whatever the timeout and with or without deadlock
  checking, at the first wakeup that ends the wait, with that result, for a request of
  the locker on a non-global resource: in particular LOCK_DEADLOCK as soon as a wakeup
  finds the lock not granted and a cycle present while checking was asked for.
\<close>

theorem lockComplete_waits_and_cleanup:
  "(lockComplete env l resId m timeout checkDeadlock = Done (r, l') \<longrightarrow>
      lockCompleteOutcome l resId checkDeadlock r l'
      \<and> (\<exists>pre w ws. wakeups env resId = pre @ w # ws
            \<and> list_all (\<lambda>v. \<not> waitEnds checkDeadlock timeout (startOfWait env resId) v) pre
            \<and> waitEnds checkDeadlock timeout (startOfWait env resId) w
            \<and> r = wakeupResult checkDeadlock w))
   \<and> (list_all (\<lambda>v. \<not> waitEnds checkDeadlock timeout (startOfWait env resId) v) pre
        \<and> waitEnds checkDeadlock timeout (startOfWait env resId) w
        \<and> wakeups env resId = pre @ w # ws
        \<and> map_of (requests l) resId = Some request \<and> resId \<noteq> resourceIdGlobal \<longrightarrow>
        (\<exists>l'. lockComplete env l resId m timeout checkDeadlock
                 = Done (wakeupResult checkDeadlock w, l')))
   \<and> (list_all (\<lambda>v. \<not> granted v \<and> \<not> hasCycle v
                      \<and> \<not> timedOut timeout (startOfWait env resId) v) pre
        \<and> \<not> granted w \<and> hasCycle w
        \<and> wakeups env resId = pre @ w # ws
        \<and> map_of (requests l) resId = Some request \<and> resId \<noteq> resourceIdGlobal \<longrightarrow>
        (\<exists>l'. lockComplete env l resId m timeout True = Done (LOCK_DEADLOCK, l')))"
proof -
  have p1: "lockCompleteOutcome l resId checkDeadlock r l'
      \<and> (\<exists>pre w ws. wakeups env resId = pre @ w # ws
            \<and> list_all (\<lambda>v. \<not> waitEnds checkDeadlock timeout (startOfWait env resId) v) pre
            \<and> waitEnds checkDeadlock timeout (startOfWait env resId) w
            \<and> r = wakeupResult checkDeadlock w)"
    if run: "lockComplete env l resId m timeout checkDeadlock = Done (r, l')"
  proof -
    from run obtain r1 l1 where
      lp: "lockCompleteLoop timeout checkDeadlock (startOfWait env resId)
             (wakeups env resId) (min timeout DeadlockTimeout) l = Done (r1, l1)"
      by (auto simp: lockComplete_def bindRun_def split: Run.splits)
    have "min timeout DeadlockTimeout \<le> 500"
      by (simp add: DeadlockTimeout_def)
    from lockCompleteLoop_trace [OF lp this] obtain new where
      n: "calls l1 = calls l @ new" "waitLoopTrace checkDeadlock r1 new"
         "requests l1 = requests l"
      by blast
    have rr: "r = r1"
      using run lp by (auto simp: lockComplete_def bindRun_def split: Run.splits if_splits)
    from lockCompleteLoop_decompose [OF lp] rr have dec:
      "\<exists>pre w ws. wakeups env resId = pre @ w # ws
            \<and> list_all (\<lambda>v. \<not> waitEnds checkDeadlock timeout (startOfWait env resId) v) pre
            \<and> waitEnds checkDeadlock timeout (startOfWait env resId) w
            \<and> r = wakeupResult checkDeadlock w"
      by simp
    have "lockCompleteOutcome l resId checkDeadlock r l'"
    proof (cases "r1 = LOCK_OK")
      case True
      with run lp have "r = LOCK_OK"
        and "l' = l1\<lparr>requests := map (\<lambda>e. if fst e = resId
                                          then (resId, lockManager_granted (snd e))
                                          else e) (requests l1)\<rparr>"
        by (auto simp: lockComplete_def bindRun_def)
      with n True show ?thesis
        unfolding lockCompleteOutcome_def
        by (rule_tac x = new in exI, rule_tac x = "[]" in exI) (simp add: map_of_update_key)
    next
      case False
      with run lp obtain b where
        u: "unlockImpl (ticketHolders env) l1 resId = Done (b, l')"
        by (auto simp: lockComplete_def bindRun_def split: Run.splits)
      from unlockImpl_calls [OF u] obtain more where
        c: "calls l' = calls l1 @ LockManagerUnlock resId # more" by blast
      from unlockImpl_requests(1) [OF u, of resId] n(3) have
        "map_of (requests l') resId = releasedTimes (map_of (requests l) resId) 1"
        by simp
      with n c rr False show ?thesis
        unfolding lockCompleteOutcome_def
        by (rule_tac x = new in exI, rule_tac x = "LockManagerUnlock resId # more" in exI) simp
    qed
    with dec show ?thesis by blast
  qed
  have p2: "\<exists>l'. lockComplete env l resId m timeout cd = Done (wakeupResult cd w, l')"
    if a: "list_all (\<lambda>v. \<not> waitEnds cd timeout (startOfWait env resId) v) pre"
      "waitEnds cd timeout (startOfWait env resId) w"
      "wakeups env resId = pre @ w # ws"
      "map_of (requests l) resId = Some request" "resId \<noteq> resourceIdGlobal" for cd
  proof -
    from lockCompleteLoop_ends [OF a(1,2)] obtain l1 where
      lp: "lockCompleteLoop timeout cd (startOfWait env resId) (pre @ w # ws)
             (min timeout DeadlockTimeout) l = Done (wakeupResult cd w, l1)"
      and rq: "requests l1 = requests l"
      by blast
    from rq a(4) have "map_of (requests l1) resId = Some request" by simp
    from unlockImpl_returns [OF this a(5)] obtain b l' where
      "unlockImpl (ticketHolders env) l1 resId = Done (b, l')" by blast
    with lp a(3) show ?thesis
      by (simp add: lockComplete_def bindRun_def)
  qed
  have p3: "\<exists>l'. lockComplete env l resId m timeout True = Done (LOCK_DEADLOCK, l')"
    if a: "list_all (\<lambda>v. \<not> granted v \<and> \<not> hasCycle v
                      \<and> \<not> timedOut timeout (startOfWait env resId) v) pre"
      "\<not> granted w" "hasCycle w"
      "wakeups env resId = pre @ w # ws"
      "map_of (requests l) resId = Some request" "resId \<noteq> resourceIdGlobal"
  proof -
    from a(1) have "list_all (\<lambda>v. \<not> waitEnds True timeout (startOfWait env resId) v) pre"
      by (simp add: waitEnds_def)
    moreover from a(3) have "waitEnds True timeout (startOfWait env resId) w"
      by (simp add: waitEnds_def)
    moreover from a(2,3) have "wakeupResult True w = LOCK_DEADLOCK"
      by (simp add: wakeupResult_def)
    ultimately show ?thesis using p2 [of True] a(4,5,6) by simp
  qed
  from p1 p2 [of checkDeadlock] p3 show ?thesis by blast
qed

theorem lockComplete_waits_and_cleanup_witness:
  "(\<exists>l'. lockComplete deadlockedEnv waitingLocker
            (ResourceId RESOURCE_DATABASE (NameHash ''db'')) MODE_X Milliseconds_max True
            = Done (LOCK_DEADLOCK, l')
         \<and> lockCompleteOutcome waitingLocker (ResourceId RESOURCE_DATABASE (NameHash ''db''))
              True LOCK_DEADLOCK l'
         \<and> calls l' = [NotifyWait 500, DeadlockCheck False, NotifyWait 500, DeadlockCheck True,
                        LockManagerUnlock (ResourceId RESOURCE_DATABASE (NameHash ''db''))]
         \<and> map_of (requests l') (ResourceId RESOURCE_DATABASE (NameHash ''db'')) = None)
   \<and> (\<exists>l'. lockComplete deadlockedEnv waitingLocker
            (ResourceId RESOURCE_DATABASE (NameHash ''db'')) MODE_X 2000 True
            = Done (LOCK_DEADLOCK, l')
         \<and> lockCompleteOutcome waitingLocker (ResourceId RESOURCE_DATABASE (NameHash ''db''))
              True LOCK_DEADLOCK l'
         \<and> calls l' = [NotifyWait 500, DeadlockCheck False, NotifyWait 500, DeadlockCheck True,
                        LockManagerUnlock (ResourceId RESOURCE_DATABASE (NameHash ''db''))]
         \<and> map_of (requests l') (ResourceId RESOURCE_DATABASE (NameHash ''db'')) = None)
   \<and> (\<exists>l'. lockComplete deadlockedEnv waitingLocker
            (ResourceId RESOURCE_DATABASE (NameHash ''db'')) MODE_X 700 False
            = Done (LOCK_TIMEOUT, l')
         \<and> lockCompleteOutcome waitingLocker (ResourceId RESOURCE_DATABASE (NameHash ''db''))
              False LOCK_TIMEOUT l'
         \<and> calls l' = [NotifyWait 500, NotifyWait 200,
                        LockManagerUnlock (ResourceId RESOURCE_DATABASE (NameHash ''db''))])"
proof -
  let ?D = "ResourceId RESOURCE_DATABASE (NameHash ''db'')"
  let ?w1 = "\<lparr>granted = False, curTimeMicros = 500000, hasCycle = False\<rparr>"
  let ?w2 = "\<lparr>granted = False, curTimeMicros = 1000000, hasCycle = True\<rparr>"
  let ?rq = "(grantedRequest MODE_X 1)\<lparr>status := STATUS_WAITING\<rparr>"
  have h: "\<not> granted ?w2" "hasCycle ?w2"
      "wakeups deadlockedEnv ?D = [?w1] @ ?w2 # []"
      "map_of (requests waitingLocker) ?D = Some ?rq"
      "?D \<noteq> resourceIdGlobal"
    by (simp_all add: deadlockedEnv_def waitingLocker_def resourceIdGlobal_def)
  have hi: "list_all (\<lambda>v. \<not> granted v \<and> \<not> hasCycle v
              \<and> \<not> timedOut Milliseconds_max (startOfWait deadlockedEnv ?D) v) [?w1]"
    by (simp add: timedOut_def)
  have hf: "list_all (\<lambda>v. \<not> granted v \<and> \<not> hasCycle v
              \<and> \<not> timedOut 2000 (startOfWait deadlockedEnv ?D) v) [?w1]"
    by (simp add: timedOut_def totalBlockTime_def deadlockedEnv_def sampleLockEnv_def)
  have ev: "lockComplete deadlockedEnv waitingLocker ?D MODE_X t True
              = Done (LOCK_DEADLOCK, l') \<Longrightarrow> t = Milliseconds_max \<or> t = 2000 \<Longrightarrow>
            calls l' = [NotifyWait 500, DeadlockCheck False, NotifyWait 500, DeadlockCheck True,
                        LockManagerUnlock ?D]" for t l'
    by (auto simp: lockComplete_def bindRun_def deadlockedEnv_def sampleLockEnv_def
        waitingLocker_def Let_def Milliseconds_max_def DeadlockTimeout_def unlockImpl_def
        lockManager_unlock_def grantedRequest_def resourceIdGlobal_def record_call_def
        totalBlockTime_def)
  have gone: "lockCompleteOutcome waitingLocker ?D True LOCK_DEADLOCK l' \<Longrightarrow>
                map_of (requests l') ?D = None" for l'
    using h(4) by (auto simp: lockCompleteOutcome_def releasedTimes_def grantedRequest_def)
  from lockComplete_waits_and_cleanup
         [of deadlockedEnv waitingLocker ?D MODE_X Milliseconds_max True LOCK_DEADLOCK _
             "[?w1]" ?w2 "[]" ?rq] h hi
  obtain l' where
    d: "lockComplete deadlockedEnv waitingLocker ?D MODE_X Milliseconds_max True
          = Done (LOCK_DEADLOCK, l')"
    by blast
  from lockComplete_waits_and_cleanup
         [of deadlockedEnv waitingLocker ?D MODE_X Milliseconds_max True LOCK_DEADLOCK l'] d
  have o: "lockCompleteOutcome waitingLocker ?D True LOCK_DEADLOCK l'"
    by blast
  from lockComplete_waits_and_cleanup
         [of deadlockedEnv waitingLocker ?D MODE_X 2000 True LOCK_DEADLOCK _
             "[?w1]" ?w2 "[]" ?rq] h hf
  obtain lf where
    df: "lockComplete deadlockedEnv waitingLocker ?D MODE_X 2000 True
          = Done (LOCK_DEADLOCK, lf)"
    by blast
  from lockComplete_waits_and_cleanup
         [of deadlockedEnv waitingLocker ?D MODE_X 2000 True LOCK_DEADLOCK lf] df
  have "of": "lockCompleteOutcome waitingLocker ?D True LOCK_DEADLOCK lf"
    by blast
  have t: "\<exists>l''. lockComplete deadlockedEnv waitingLocker ?D MODE_X 700 False
              = Done (LOCK_TIMEOUT, l'')
           \<and> calls l'' = [NotifyWait 500, NotifyWait 200, LockManagerUnlock ?D]"
    by (simp add: lockComplete_def bindRun_def deadlockedEnv_def sampleLockEnv_def
        waitingLocker_def Let_def Milliseconds_max_def DeadlockTimeout_def unlockImpl_def
        lockManager_unlock_def grantedRequest_def resourceIdGlobal_def record_call_def
        totalBlockTime_def)
  then obtain l'' where
    t1: "lockComplete deadlockedEnv waitingLocker ?D MODE_X 700 False = Done (LOCK_TIMEOUT, l'')"
    and t2: "calls l'' = [NotifyWait 500, NotifyWait 200, LockManagerUnlock ?D]"
    by blast
  from lockComplete_waits_and_cleanup
         [of deadlockedEnv waitingLocker ?D MODE_X 700 False LOCK_TIMEOUT l''] t1
  have o2: "lockCompleteOutcome waitingLocker ?D False LOCK_TIMEOUT l''"
    by blast
  from d o gone [OF o] ev [OF d] df "of" gone [OF "of"] ev [OF df] t1 t2 o2
  show ?thesis by blast
qed

section \<open>Properties of saving and restoring the lock state\<close>

lemma unlockImpl_released:
  assumes "unlockImpl th l resId = Done (True, l')" and "resId \<noteq> resourceIdGlobal"
  shows "requests l' = filter (\<lambda>e. fst e \<noteq> resId) (requests l)"
    and "modeForTicket l' = modeForTicket l" and "clientState l' = clientState l"
    and "wuowNestingLevel l' = wuowNestingLevel l"
    and "resourcesToUnlockAtEndOfUnitOfWork l' = resourcesToUnlockAtEndOfUnitOfWork l"
  using assms
  by (auto simp: unlockImpl_def Let_def split: option.splits prod.splits bool.splits if_splits)

lemma unlockImpl_released_global:
  assumes "unlockImpl th l resourceIdGlobal = Done (True, l')"
  shows "requests l' = filter (\<lambda>e. fst e \<noteq> resourceIdGlobal) (requests l)"
    and "modeForTicket l' = MODE_NONE" and "clientState l' = kInactive"
    and "wuowNestingLevel l' = wuowNestingLevel l"
    and "resourcesToUnlockAtEndOfUnitOfWork l' = resourcesToUnlockAtEndOfUnitOfWork l"
  using assms
  by (auto simp: unlockImpl_def Let_def split: option.splits prod.splits bool.splits if_splits)

lemma unlock_outside_wuow:
  "\<not> wuowNestingLevel l > 0 \<Longrightarrow> unlock th l resId = Done (b, l') \<Longrightarrow>
     unlockImpl th l resId = Done (b, l')"
  by (auto simp: unlock_def inAWriteUnitOfWork_def split: option.splits)

lemma saveLoop_result:
  "saveLoop th l es out = Done (out', l') \<Longrightarrow> \<not> wuowNestingLevel l > 0 \<Longrightarrow>
   resourceIdGlobal \<notin> fst ` set es \<Longrightarrow>
     out' = out @ map (\<lambda>e. (fst e, mode (snd e))) (filter (\<lambda>e. \<not> isMutex (fst e)) es)
     \<and> requests l' = filter (\<lambda>e. isMutex (fst e) \<or> fst e \<notin> fst ` set es) (requests l)
     \<and> modeForTicket l' = modeForTicket l \<and> clientState l' = clientState l
     \<and> wuowNestingLevel l' = wuowNestingLevel l
     \<and> resourcesToUnlockAtEndOfUnitOfWork l' = resourcesToUnlockAtEndOfUnitOfWork l"
proof (induction es arbitrary: l out)
  case Nil
  then show ?case by simp
next
  case (Cons e es)
  obtain resId request where e: "e = (resId, request)" by (cases e)
  show ?case
  proof (cases "isMutex resId")
    case True
    with Cons.prems e have rec: "saveLoop th l es out = Done (out', l')"
      by (simp add: isMutex_def)
    from Cons.prems(3) have ng: "resourceIdGlobal \<notin> fst ` set es" by auto
    from Cons.IH [OF rec Cons.prems(2) ng] True e show ?thesis
      by (auto intro!: filter_cong)
  next
    case False
    with Cons.prems(1) e obtain l1 where
      u: "unlock th l resId = Done (True, l1)"
      and rec: "saveLoop th l1 es (out @ [(resId, mode request)]) = Done (out', l')"
      by (auto simp: isMutex_def bindRun_def split: if_splits Run.splits)
    from Cons.prems(3) e have ng: "resId \<noteq> resourceIdGlobal" "resourceIdGlobal \<notin> fst ` set es"
      by auto
    note r = unlockImpl_released [OF unlock_outside_wuow [OF Cons.prems(2) u] ng(1)]
    have lev: "\<not> wuowNestingLevel l1 > 0" using r(4) Cons.prems(2) by simp
    from Cons.IH [OF rec lev ng(2)] r False e show ?thesis
      by (auto intro!: filter_cong)
  qed
qed

lemma global_not_mutex [simp]: "\<not> isMutex resourceIdGlobal"
  by (simp add: isMutex_def resourceIdGlobal_def)

lemma saveLockStateAndUnlock_result:
  assumes "saveLockStateAndUnlock fullHash th l = Done (True, snap, l')"
  shows "requests l' = filter (\<lambda>e. isMutex (fst e)) (requests l)"
    and "globalMode snap = getLockMode l resourceIdGlobal"
    and "locks snap =
           sort_key (\<lambda>info. fullHash (fst info))
             (map (\<lambda>e. (fst e, mode (snd e)))
                (filter (\<lambda>e. \<not> isMutex (fst e) \<and> fst e \<noteq> resourceIdGlobal) (requests l)))"
    and "modeForTicket l' = MODE_NONE"
    and "wuowNestingLevel l' = wuowNestingLevel l"
    and "\<not> wuowNestingLevel l > 0"
    and "map_of (requests l) resourceIdGlobal \<noteq> None"
proof -
  from assms have lev: "\<not> wuowNestingLevel l > 0"
    by (auto simp: saveLockStateAndUnlock_def inAWriteUnitOfWork_def split: if_splits)
  from assms lev obtain g where g: "map_of (requests l) resourceIdGlobal = Some g"
    by (auto simp: saveLockStateAndUnlock_def inAWriteUnitOfWork_def Let_def
        split: option.splits if_splits)
  from assms lev g obtain l1 out where
    u: "unlock th l resourceIdGlobal = Done (True, l1)"
    and sl: "saveLoop th l1 (requests l1) [] = Done (out, l')"
    and sn: "snap = \<lparr>globalMode = mode g,
                      locks = sort_key (\<lambda>info. fullHash (fst info)) out\<rparr>"
    by (auto simp: saveLockStateAndUnlock_def inAWriteUnitOfWork_def Let_def bindRun_def
        split: if_splits Run.splits)
  note r = unlockImpl_released_global [OF unlock_outside_wuow [OF lev u]]
  have lev1: "\<not> wuowNestingLevel l1 > 0" using r(4) lev by simp
  have ng: "resourceIdGlobal \<notin> fst ` set (requests l1)"
    using r(1) by auto
  note s = saveLoop_result [OF sl lev1 ng]
  show "requests l' = filter (\<lambda>e. isMutex (fst e)) (requests l)"
    using s r(1) by (auto intro!: filter_cong)
  show "globalMode snap = getLockMode l resourceIdGlobal"
    using sn g by (simp add: getLockMode_def)
  show "locks snap =
           sort_key (\<lambda>info. fullHash (fst info))
             (map (\<lambda>e. (fst e, mode (snd e)))
                (filter (\<lambda>e. \<not> isMutex (fst e) \<and> fst e \<noteq> resourceIdGlobal) (requests l)))"
    using sn s r(1) by (simp add: conj_commute)
  show "modeForTicket l' = MODE_NONE" using s r(2) by simp
  show "wuowNestingLevel l' = wuowNestingLevel l" using s r(4) by simp
  show "\<not> wuowNestingLevel l > 0" by (rule lev)
  show "map_of (requests l) resourceIdGlobal \<noteq> None" using g by simp
qed

lemma acquisitionsOf_append:
  "acquisitionsOf (xs @ ys) = acquisitionsOf xs @ acquisitionsOf ys"
  by (induction xs rule: acquisitionsOf.induct) simp_all

lemma waitLoopTrace_no_acquisition:
  "waitLoopTrace cd r new \<Longrightarrow> acquisitionsOf new = []"
proof -
  have "list_all (boundedWaitOrCheck cd) new \<Longrightarrow> acquisitionsOf new = []"
  proof (induction new)
    case Nil
    then show ?case by simp
  next
    case (Cons e new)
    then show ?case by (cases e) auto
  qed
  then show "waitLoopTrace cd r new \<Longrightarrow> acquisitionsOf new = []"
    by (simp add: waitLoopTrace_def)
qed

lemma lockCompleteLoop_level:
  "lockCompleteLoop timeout cd start ws waitTime l = Done (r, l1) \<Longrightarrow>
     wuowNestingLevel l1 = wuowNestingLevel l"
proof (induction ws arbitrary: waitTime l)
  case Nil
  then show ?case by simp
next
  case (Cons w ws)
  show ?case
  proof (cases "granted w \<or> (cd \<and> hasCycle w)")
    case True
    with Cons.prems show ?thesis by (auto simp: Let_def split: if_splits)
  next
    case False
    let ?l2 = "if cd then record_call (DeadlockCheck False) (record_call (NotifyWait waitTime) l)
               else record_call (NotifyWait waitTime) l"
    from False Cons.prems have
      "(\<exists>wt. lockCompleteLoop timeout cd start ws wt ?l2 = Done (r, l1)) \<or> l1 = ?l2"
      by (auto simp: Let_def split: if_splits)
    then show ?thesis
    proof
      assume "\<exists>wt. lockCompleteLoop timeout cd start ws wt ?l2 = Done (r, l1)"
      then obtain wt where "lockCompleteLoop timeout cd start ws wt ?l2 = Done (r, l1)" ..
      from Cons.IH [OF this] show ?thesis by simp
    next
      assume "l1 = ?l2"
      then show ?thesis by simp
    qed
  qed
qed

lemma lockBegin_new:
  assumes "lockBegin env l resId m = (r, l1)" and "map_of (requests l) resId = None"
  shows "\<exists>q. requests l1 = requests l @ [(resId, q)] \<and> mode q = m
             \<and> status q \<noteq> STATUS_CONVERTING
             \<and> (r = LOCK_OK \<longrightarrow> status q = STATUS_GRANTED)"
    and "calls l1 = calls l @ [LockManagerLock resId m]"
    and "modeForTicket l1 = modeForTicket l"
    and "wuowNestingLevel l1 = wuowNestingLevel l"
    and "r = LOCK_OK \<or> r = LOCK_WAITING"
  using assms
  by (auto simp: lockBegin_def Let_def lockManager_lock_def split: if_splits)

lemma map_update_last:
  "k \<notin> fst ` set xs \<Longrightarrow>
     map (\<lambda>e. if fst e = k then (k, f (snd e)) else e) (xs @ [(k, q)]) = xs @ [(k, f q)]"
  by (induction xs) auto

lemma acquire_new:
  assumes lb: "lockBegin env l resId m = (r, l1)"
    and new: "resId \<notin> fst ` set (requests l)"
    and fin: "(r = LOCK_OK \<and> l' = l1) \<or>
              (r = LOCK_WAITING \<and> lockComplete env l1 resId m' timeout cd = Done (LOCK_OK, l'))"
  shows "heldLocks l' = heldLocks l @ [(resId, m)]
        \<and> acquisitions l' = acquisitions l @ [(resId, m)]
        \<and> modeForTicket l' = modeForTicket l \<and> wuowNestingLevel l' = wuowNestingLevel l
        \<and> grantedLocks l' = grantedLocks l @ [(resId, m)]"
proof -
  from new have none: "map_of (requests l) resId = None"
    by (simp add: map_of_eq_None_iff)
  from lockBegin_new [OF lb none] obtain q where
    b: "requests l1 = requests l @ [(resId, q)]" "mode q = m" "status q \<noteq> STATUS_CONVERTING"
       "calls l1 = calls l @ [LockManagerLock resId m]"
       "modeForTicket l1 = modeForTicket l" "wuowNestingLevel l1 = wuowNestingLevel l"
    and ok: "r = LOCK_OK \<longrightarrow> status q = STATUS_GRANTED"
    by blast
  from fin show ?thesis
  proof
    assume "r = LOCK_OK \<and> l' = l1"
    with b ok show ?thesis
      by (simp add: heldLocks_def grantedLocks_def acquisitions_def acquisitionsOf_append)
  next
    assume "r = LOCK_WAITING \<and> lockComplete env l1 resId m' timeout cd = Done (LOCK_OK, l')"
    then have lc: "lockComplete env l1 resId m' timeout cd = Done (LOCK_OK, l')" ..
    then obtain l2 where
      lp: "lockCompleteLoop timeout cd (startOfWait env resId) (wakeups env resId)
             (min timeout DeadlockTimeout) l1 = Done (LOCK_OK, l2)"
      and l': "l' = l2\<lparr>requests := map (\<lambda>e. if fst e = resId
                                           then (resId, lockManager_granted (snd e))
                                           else e) (requests l2)\<rparr>"
      by (auto simp: lockComplete_def bindRun_def split: Run.splits if_splits)
    have "min timeout DeadlockTimeout \<le> 500" by (simp add: DeadlockTimeout_def)
    from lockCompleteLoop_trace [OF lp this] obtain nw where
      t: "calls l2 = calls l1 @ nw" "waitLoopTrace cd LOCK_OK nw"
         "requests l2 = requests l1" "modeForTicket l2 = modeForTicket l1"
      by blast
    have lev: "wuowNestingLevel l2 = wuowNestingLevel l1"
      by (rule lockCompleteLoop_level [OF lp])
    have rq: "requests l' = requests l @ [(resId, lockManager_granted q)]"
      using l' t(3) b(1) map_update_last [OF new, of lockManager_granted q] by simp
    have "mode (lockManager_granted q) = m" "status (lockManager_granted q) = STATUS_GRANTED"
      using b(2,3) by (simp_all add: lockManager_granted_def)
    with rq l' t b lev waitLoopTrace_no_acquisition [OF t(2)] show ?thesis
      by (simp add: heldLocks_def grantedLocks_def acquisitions_def acquisitionsOf_append)
  qed
qed

lemma lockOrDie_new:
  assumes run: "lockOrDie env l info = Done l'"
    and new: "fst info \<notin> fst ` set (requests l)"
  shows "heldLocks l' = heldLocks l @ [info]
        \<and> acquisitions l' = acquisitions l @ [info]
        \<and> modeForTicket l' = modeForTicket l \<and> wuowNestingLevel l' = wuowNestingLevel l
        \<and> grantedLocks l' = grantedLocks l @ [info]"
proof -
  obtain r l1 where lb: "lockBegin env l (fst info) (snd info) = (r, l1)"
    by (cases "lockBegin env l (fst info) (snd info)")
  from run lb have
    "(r = LOCK_OK \<and> l' = l1) \<or>
     (r = LOCK_WAITING \<and>
      lockComplete env l1 (fst info) (snd info) Milliseconds_max False = Done (LOCK_OK, l'))"
    by (auto simp: lockOrDie_def lock_def bindRun_def split: Run.splits if_splits)
  from acquire_new [OF lb new this] show ?thesis by simp
qed

lemma keys_heldLocks: "fst ` set (heldLocks l) = fst ` set (requests l)"
  by (force simp: heldLocks_def)

lemma keys_after:
  assumes "heldLocks l1 = heldLocks l @ xs"
  shows "fst ` set (requests l1) = fst ` set (requests l) \<union> fst ` set xs"
proof -
  have "fst ` set (heldLocks l1) = fst ` set (heldLocks l) \<union> fst ` set xs"
    using assms by (simp add: image_Un)
  then show ?thesis by (simp add: keys_heldLocks)
qed

lemma restoreLoop_result:
  "restoreLoop env l infos = Done l' \<Longrightarrow> distinct (map fst infos) \<Longrightarrow>
   fst ` set infos \<inter> fst ` set (requests l) = {} \<Longrightarrow>
     heldLocks l' = heldLocks l @ infos \<and> acquisitions l' = acquisitions l @ infos
     \<and> modeForTicket l' = modeForTicket l \<and> wuowNestingLevel l' = wuowNestingLevel l
     \<and> grantedLocks l' = grantedLocks l @ infos"
proof (induction infos arbitrary: l)
  case Nil
  then show ?case by simp
next
  case (Cons info infos)
  from Cons.prems(1) obtain l1 where
    a: "lockOrDie env l info = Done l1" and rec: "restoreLoop env l1 infos = Done l'"
    by (auto simp: bindRun_def split: Run.splits)
  from Cons.prems(3) have new: "fst info \<notin> fst ` set (requests l)" by auto
  note s = lockOrDie_new [OF a new]
  have k1: "fst ` set (requests l1) = insert (fst info) (fst ` set (requests l))"
    using s keys_heldLocks [of l1] keys_heldLocks [of l] by auto
  from Cons.prems(2) have d: "distinct (map fst infos)" and ni: "fst info \<notin> fst ` set infos"
    by auto
  have disj: "fst ` set infos \<inter> fst ` set (requests l1) = {}"
    using k1 ni Cons.prems(3) by auto
  from Cons.IH [OF rec d disj] s show ?case by simp
qed

lemma lockGlobalBegin_unbounded:
  assumes "lockGlobalBegin env l m Milliseconds_max = Done (r, l1)"
    and "modeForTicket l = MODE_NONE"
  shows "\<exists>lx. lockBegin env lx resourceIdGlobal m = (r, l1) \<and> requests lx = requests l
            \<and> acquisitionsOf (calls lx) = acquisitionsOf (calls l) \<and> modeForTicket lx = m
            \<and> wuowNestingLevel lx = wuowNestingLevel l"
  using assms
  by (auto simp: lockGlobalBegin_def Let_def acquisitionsOf_append
      split: option.splits if_splits)

lemma lockGlobal_new:
  assumes run: "lockGlobal env l m = Done (LOCK_OK, l')"
    and mft: "modeForTicket l = MODE_NONE"
    and new: "resourceIdGlobal \<notin> fst ` set (requests l)"
  shows "heldLocks l' = heldLocks l @ [(resourceIdGlobal, m)]
        \<and> acquisitions l' = acquisitions l @ [(resourceIdGlobal, m)]
        \<and> modeForTicket l' = m \<and> wuowNestingLevel l' = wuowNestingLevel l
        \<and> grantedLocks l' = grantedLocks l @ [(resourceIdGlobal, m)]"
proof -
  from run obtain r l1 where
    gb: "lockGlobalBegin env l m Milliseconds_max = Done (r, l1)"
    and fin0: "(if r = LOCK_WAITING then lockGlobalComplete env l1 Milliseconds_max
                else Done (r, l1)) = Done (LOCK_OK, l')"
    by (auto simp: lockGlobal_def bindRun_def split: Run.splits)
  from lockGlobalBegin_unbounded [OF gb mft] obtain lx where
    lx: "lockBegin env lx resourceIdGlobal m = (r, l1)" "requests lx = requests l"
        "acquisitionsOf (calls lx) = acquisitionsOf (calls l)" "modeForTicket lx = m"
        "wuowNestingLevel lx = wuowNestingLevel l"
    by blast
  from new lx(2) have newx: "resourceIdGlobal \<notin> fst ` set (requests lx)" by simp
  from fin0 have
    "(r = LOCK_OK \<and> l' = l1) \<or>
     (r = LOCK_WAITING \<and>
      lockComplete env l1 resourceIdGlobal (getLockMode l1 resourceIdGlobal)
        Milliseconds_max False = Done (LOCK_OK, l'))"
    by (auto simp: lockGlobalComplete_def split: if_splits)
  from acquire_new [OF lx(1) newx this] lx show ?thesis
    by (simp add: heldLocks_def grantedLocks_def acquisitions_def)
qed

lemma restoreLockState_result:
  assumes run: "restoreLockState env l state = Done l'"
    and d: "distinct (map fst (locks state))"
    and ng: "resourceIdGlobal \<notin> fst ` set (locks state)"
    and disj: "fst ` set (locks state) \<inter> fst ` set (requests l) = {}"
    and ngl: "resourceIdGlobal \<notin> fst ` set (requests l)"
  shows "heldLocks l' = heldLocks l @ restoreOrder state
        \<and> acquisitions l' = acquisitions l @ restoreOrder state
        \<and> grantedLocks l' = grantedLocks l @ restoreOrder state"
proof -
  from run have mft: "modeForTicket l = MODE_NONE"
    by (auto simp: restoreLockState_def split: if_splits)
  from run obtain l1 it l2 where
    first: "(case locks state of
                   info # rest \<Rightarrow>
                     if fst info = resourceIdParallelBatchWriterMode
                     then bindRun (lockOrDie env l info) (\<lambda>l1. Done (l1, rest))
                     else Done (l, locks state)
                 | [] \<Rightarrow> Done (l, locks state)) = Done (l1, it)"
    and g: "lockGlobal env l1 (globalMode state) = Done (LOCK_OK, l2)"
    and rl: "restoreLoop env l2 it = Done l'"
    by (auto simp: restoreLockState_def bindRun_def split: if_splits Run.splits)
  have pre: "\<exists>pre. locks state = pre @ it \<and> heldLocks l1 = heldLocks l @ pre
              \<and> acquisitions l1 = acquisitions l @ pre
              \<and> grantedLocks l1 = grantedLocks l @ pre
              \<and> modeForTicket l1 = modeForTicket l
              \<and> restoreOrder state = pre @ (resourceIdGlobal, globalMode state) # it"
  proof (cases "locks state")
    case Nil
    with first show ?thesis by (simp add: restoreOrder_def)
  next
    case (Cons info rest)
    show ?thesis
    proof (cases "fst info = resourceIdParallelBatchWriterMode")
      case False
      with Cons have ro: "restoreOrder state = (resourceIdGlobal, globalMode state) # locks state"
        by (simp add: restoreOrder_def)
      from first Cons False have "l1 = l" "it = locks state" by auto
      with ro show ?thesis by simp
    next
      case True
      with Cons first have a: "lockOrDie env l info = Done l1" and i: "it = rest"
        by (auto simp: bindRun_def split: Run.splits)
      from disj Cons have "fst info \<notin> fst ` set (requests l)" by auto
      from lockOrDie_new [OF a this] Cons True i show ?thesis
        by (simp add: restoreOrder_def)
    qed
  qed
  then obtain pre where
    p: "locks state = pre @ it" "heldLocks l1 = heldLocks l @ pre"
       "acquisitions l1 = acquisitions l @ pre" "modeForTicket l1 = modeForTicket l"
       "restoreOrder state = pre @ (resourceIdGlobal, globalMode state) # it"
       "grantedLocks l1 = grantedLocks l @ pre"
    by blast
  have k1: "fst ` set (requests l1) = fst ` set (requests l) \<union> fst ` set pre"
    using p(2) by (rule keys_after)
  have ng1: "resourceIdGlobal \<notin> fst ` set (requests l1)"
    using k1 ngl ng p(1) by auto
  have mft1: "modeForTicket l1 = MODE_NONE" using p(4) mft by simp
  note s2 = lockGlobal_new [OF g mft1 ng1]
  have k2: "fst ` set (requests l2) = insert resourceIdGlobal (fst ` set (requests l1))"
    using keys_after [of l2 l1 "[(resourceIdGlobal, globalMode state)]"] s2 by simp
  have dit: "distinct (map fst it)" using d p(1) by simp
  have disj2: "fst ` set it \<inter> fst ` set (requests l2) = {}"
    using k2 k1 disj ng d p(1) by auto
  from restoreLoop_result [OF rl dit disj2] s2 p show ?thesis by simp
qed

lemma lockBegin_result:
  "lockBegin env l resId m = (r, l1) \<Longrightarrow>
     r = LOCK_OK \<or> (r = LOCK_WAITING \<and> \<not> lockManagerGrants env resId m)"
  by (auto simp: lockBegin_def Let_def lockManager_lock_def lockManager_convert_def
      split: prod.splits if_splits)

lemma lockComplete_granted_wakeup:
  assumes "list_ex granted (wakeups env resId)"
  shows "\<exists>l1. lockComplete env l resId m Milliseconds_max False = Done (LOCK_OK, l1)
             \<and> modeForTicket l1 = modeForTicket l"
proof -
  from assms have "\<exists>v\<in>set (wakeups env resId). granted v"
    by (simp add: list_ex_iff)
  then obtain pre w ws where
    sp: "wakeups env resId = pre @ w # ws" and gw: "granted w"
    and np: "\<forall>v\<in>set pre. \<not> granted v"
    by (rule split_list_first_propE)
  from np have a: "list_all (\<lambda>v. \<not> waitEnds False Milliseconds_max (startOfWait env resId) v) pre"
    by (simp add: waitEnds_def timedOut_def list_all_iff)
  from gw have b: "waitEnds False Milliseconds_max (startOfWait env resId) w"
    by (simp add: waitEnds_def)
  from gw have c: "wakeupResult False w = LOCK_OK"
    by (simp add: wakeupResult_def)
  from lockCompleteLoop_ends [OF a b, of ws "min Milliseconds_max DeadlockTimeout" l] c
  obtain l1 where
    "lockCompleteLoop Milliseconds_max False (startOfWait env resId) (pre @ w # ws)
       (min Milliseconds_max DeadlockTimeout) l = Done (LOCK_OK, l1)"
    and "modeForTicket l1 = modeForTicket l"
    by auto
  with sp show ?thesis
    by (simp add: lockComplete_def bindRun_def)
qed

lemma lockOrDie_returns:
  assumes "grantedInTheEnd env info"
  shows "\<exists>l1. lockOrDie env l info = Done l1 \<and> modeForTicket l1 = modeForTicket l"
proof -
  obtain r l1 where lb: "lockBegin env l (fst info) (snd info) = (r, l1)"
    by (cases "lockBegin env l (fst info) (snd info)")
  from lockBegin_calls [OF lb] have m1: "modeForTicket l1 = modeForTicket l" by simp
  from lockBegin_result [OF lb] show ?thesis
  proof
    assume "r = LOCK_OK"
    with lb m1 show ?thesis
      by (simp add: lockOrDie_def lock_def bindRun_def)
  next
    assume w: "r = LOCK_WAITING \<and> \<not> lockManagerGrants env (fst info) (snd info)"
    with assms have "list_ex granted (wakeups env (fst info))"
      by (simp add: grantedInTheEnd_def)
    from lockComplete_granted_wakeup [OF this, of l1 "snd info"] obtain l2 where
      "lockComplete env l1 (fst info) (snd info) Milliseconds_max False = Done (LOCK_OK, l2)"
      and "modeForTicket l2 = modeForTicket l1"
      by blast
    with lb m1 w show ?thesis
      by (simp add: lockOrDie_def lock_def bindRun_def)
  qed
qed

lemma restoreLoop_returns:
  assumes "list_all (grantedInTheEnd env) infos"
  shows "\<exists>l1. restoreLoop env l infos = Done l1 \<and> modeForTicket l1 = modeForTicket l"
  using assms
proof (induction infos arbitrary: l)
  case Nil
  then show ?case by simp
next
  case (Cons info infos)
  from Cons.prems have i: "grantedInTheEnd env info"
    and rest: "list_all (grantedInTheEnd env) infos"
    by simp_all
  from lockOrDie_returns [OF i, of l] obtain l1 where
    a: "lockOrDie env l info = Done l1" "modeForTicket l1 = modeForTicket l" by blast
  from Cons.IH [OF rest, of l1] a show ?case by (auto simp: bindRun_def)
qed

lemma lockGlobal_returns:
  assumes g: "grantedInTheEnd env (resourceIdGlobal, m)" and t: "ticketInTheEnd env m"
    and mft: "modeForTicket l = MODE_NONE"
  shows "\<exists>l1. lockGlobal env l m = Done (LOCK_OK, l1) \<and> modeForTicket l1 = m"
proof -
  have "\<exists>lx. lockGlobalBegin env l m Milliseconds_max = Done (lockBegin env lx resourceIdGlobal m)
            \<and> modeForTicket lx = m"
    using t mft
    by (auto simp: lockGlobalBegin_def ticketInTheEnd_def Let_def split: option.splits)
  then obtain lx where
    b: "lockGlobalBegin env l m Milliseconds_max = Done (lockBegin env lx resourceIdGlobal m)"
    and mx: "modeForTicket lx = m" by blast
  obtain r l1 where lb: "lockBegin env lx resourceIdGlobal m = (r, l1)"
    by (cases "lockBegin env lx resourceIdGlobal m")
  from lockBegin_calls [OF lb] mx have m1: "modeForTicket l1 = m" by simp
  from lockBegin_result [OF lb] show ?thesis
  proof
    assume "r = LOCK_OK"
    with b lb m1 show ?thesis
      by (simp add: lockGlobal_def bindRun_def)
  next
    assume w: "r = LOCK_WAITING \<and> \<not> lockManagerGrants env resourceIdGlobal m"
    with g have "list_ex granted (wakeups env resourceIdGlobal)"
      by (simp add: grantedInTheEnd_def)
    from lockComplete_granted_wakeup
           [OF this, of l1 "getLockMode l1 resourceIdGlobal"] obtain l2 where
      "lockComplete env l1 resourceIdGlobal (getLockMode l1 resourceIdGlobal)
         Milliseconds_max False = Done (LOCK_OK, l2)"
      and "modeForTicket l2 = modeForTicket l1"
      by blast
    with b lb m1 w show ?thesis
      by (simp add: lockGlobal_def lockGlobalComplete_def bindRun_def)
  qed
qed

lemma restoreLockState_returns:
  assumes g: "list_all (grantedInTheEnd env) (restoreOrder state)"
    and t: "ticketInTheEnd env (globalMode state)"
    and mft: "modeForTicket l = MODE_NONE" and lev: "\<not> wuowNestingLevel l > 0"
    and gm: "globalMode state \<noteq> MODE_NONE"
  shows "\<exists>l'. restoreLockState env l state = Done l'"
proof -
  have parts: "\<exists>l1 it. (case locks state of
                   info # rest \<Rightarrow>
                     if fst info = resourceIdParallelBatchWriterMode
                     then bindRun (lockOrDie env l info) (\<lambda>l1. Done (l1, rest))
                     else Done (l, locks state)
                 | [] \<Rightarrow> Done (l, locks state)) = Done (l1, it)
               \<and> modeForTicket l1 = MODE_NONE
               \<and> grantedInTheEnd env (resourceIdGlobal, globalMode state)
               \<and> list_all (grantedInTheEnd env) it"
  proof (cases "locks state")
    case Nil
    with mft g show ?thesis by (simp add: restoreOrder_def)
  next
    case (Cons info rest)
    show ?thesis
    proof (cases "fst info = resourceIdParallelBatchWriterMode")
      case True
      with Cons g have gi: "grantedInTheEnd env info"
        and gr: "grantedInTheEnd env (resourceIdGlobal, globalMode state)"
                "list_all (grantedInTheEnd env) rest"
        by (simp_all add: restoreOrder_def)
      from lockOrDie_returns [OF gi, of l] obtain l1 where
        "lockOrDie env l info = Done l1" "modeForTicket l1 = modeForTicket l" by blast
      with Cons True mft gr show ?thesis by (simp add: bindRun_def)
    next
      case False
      with Cons g mft show ?thesis by (simp add: restoreOrder_def)
    qed
  qed
  then obtain l1 it where
    first: "(case locks state of
                   info # rest \<Rightarrow>
                     if fst info = resourceIdParallelBatchWriterMode
                     then bindRun (lockOrDie env l info) (\<lambda>l1. Done (l1, rest))
                     else Done (l, locks state)
                 | [] \<Rightarrow> Done (l, locks state)) = Done (l1, it)"
    and m1: "modeForTicket l1 = MODE_NONE"
    and gg: "grantedInTheEnd env (resourceIdGlobal, globalMode state)"
    and gi: "list_all (grantedInTheEnd env) it"
    by blast
  from lockGlobal_returns [OF gg t m1] obtain l2 where
    g2: "lockGlobal env l1 (globalMode state) = Done (LOCK_OK, l2)"
    and m2: "modeForTicket l2 = globalMode state" by blast
  from restoreLoop_returns [OF gi, of l2] obtain l3 where
    r3: "restoreLoop env l2 it = Done l3" and m3: "modeForTicket l3 = modeForTicket l2"
    by blast
  from first g2 r3 m2 m3 gm mft lev show ?thesis
    by (simp add: restoreLockState_def inAWriteUnitOfWork_def bindRun_def)
qed

lemma distinct_keys_sort_key:
  "distinct (map fst (sort_key f xs)) = distinct (map fst xs)"
  by (simp add: distinct_map)

lemma filter_key_distinct:
  "distinct (map fst xs) \<Longrightarrow> (k, v) \<in> set xs \<Longrightarrow> filter (\<lambda>i. fst i = k) xs = [(k, v)]"
proof (induction xs)
  case Nil
  then show ?case by simp
next
  case (Cons x xs)
  show ?case
  proof (cases "x = (k, v)")
    case True
    with Cons.prems(1) have "k \<notin> fst ` set xs" by simp
    then have "filter (\<lambda>i. fst i = k) xs = []"
      by (force simp: filter_empty_conv)
    with True show ?thesis by simp
  next
    case False
    with Cons.prems have in_xs: "(k, v) \<in> set xs" by simp
    then have "k \<in> fst ` set xs" by force
    with Cons.prems(1) have "fst x \<noteq> k" by auto
    with Cons.IH in_xs Cons.prems(1) show ?thesis by simp
  qed
qed

lemma pbwm_not_mutex_or_global [simp]:
  "\<not> isMutex resourceIdParallelBatchWriterMode"
  "resourceIdParallelBatchWriterMode \<noteq> resourceIdGlobal"
  "resourceIdGlobal \<noteq> resourceIdParallelBatchWriterMode"
  by (simp_all add: isMutex_def resourceIdParallelBatchWriterMode_def resourceIdGlobal_def)

lemma restoreOrder_reacquired:
  fixes fullHash :: "ResourceId \<Rightarrow> nat"
  assumes dk: "distinct (map fst held)"
    and gin: "(resourceIdGlobal, globalMode state) \<in> set held"
    and low: "\<forall>i\<in>set held. isMutex (fst i) \<or> fst i = resourceIdGlobal
                \<or> fst i = resourceIdParallelBatchWriterMode
                \<or> fullHash resourceIdParallelBatchWriterMode < fullHash (fst i)"
    and ls: "locks state =
               sort_key (\<lambda>i. fullHash (fst i))
                 (filter (\<lambda>i. \<not> isMutex (fst i) \<and> fst i \<noteq> resourceIdGlobal) held)"
  shows "restoreOrder state = reacquired fullHash held"
proof -
  let ?P = resourceIdParallelBatchWriterMode
  let ?F = "\<lambda>i::OneLock. fullHash (fst i)"
  let ?X = "filter (\<lambda>i. \<not> isMutex (fst i) \<and> fst i \<noteq> resourceIdGlobal) held"
  let ?S = "sort_key ?F ?X"
  have g1: "filter (\<lambda>i. fst i = resourceIdGlobal) held = [(resourceIdGlobal, globalMode state)]"
    using dk gin by (rule filter_key_distinct)
  have "filter (\<lambda>i. fst i \<noteq> ?P) ?S = sort_key ?F (filter (\<lambda>i. fst i \<noteq> ?P) ?X)"
    by (rule filter_sort)
  also have "filter (\<lambda>i. fst i \<noteq> ?P) ?X
               = filter (\<lambda>i. \<not> isMutex (fst i) \<and> fst i \<noteq> resourceIdGlobal \<and> fst i \<noteq> ?P) held"
    by (auto intro: filter_cong)
  finally have rest: "sort_key ?F (filter (\<lambda>i. \<not> isMutex (fst i) \<and> fst i \<noteq> resourceIdGlobal
                                         \<and> fst i \<noteq> ?P) held)
                        = filter (\<lambda>i. fst i \<noteq> ?P) ?S"
    by (rule sym)
  have setS: "set ?S = {i \<in> set held. \<not> isMutex (fst i) \<and> fst i \<noteq> resourceIdGlobal}"
    by simp
  have dS: "distinct (map fst ?S)"
    unfolding distinct_keys_sort_key using dk by (rule distinct_map_filter)
  show ?thesis
  proof (cases "?P \<in> fst ` set held")
    case False
    then have none: "filter (\<lambda>i. fst i = ?P) held = []"
      by (force simp: filter_empty_conv)
    from False have np: "\<forall>i\<in>set ?S. fst i \<noteq> ?P"
      unfolding setS by force
    then have all: "filter (\<lambda>i. fst i \<noteq> ?P) ?S = ?S"
      by (simp only: filter_id_conv)
    have hd: "?S \<noteq> [] \<longrightarrow> fst (hd ?S) \<noteq> ?P"
    proof
      assume "?S \<noteq> []"
      then have "hd ?S \<in> set ?S" by (rule hd_in_set)
      with np show "fst (hd ?S) \<noteq> ?P" by blast
    qed
    have "restoreOrder state = (resourceIdGlobal, globalMode state) # ?S"
      using hd unfolding restoreOrder_def ls by (cases ?S) simp_all
    with none g1 rest all show ?thesis
      by (simp add: reacquired_def)
  next
    case True
    then obtain m where pin: "(?P, m) \<in> set held" by force
    have p1: "filter (\<lambda>i. fst i = ?P) held = [(?P, m)]"
      using dk pin by (rule filter_key_distinct)
    from pin have pS: "(?P, m) \<in> set ?S"
      unfolding setS by simp
    have key: "i = (?P, m)" if "i \<in> set held" "fst i = ?P" for i
    proof -
      from that have "i \<in> set (filter (\<lambda>i. fst i = ?P) held)" by simp
      then have "i \<in> set [(?P, m)]" by (simp only: p1)
      then show ?thesis by simp
    qed
    have less: "fullHash ?P < ?F i" if "i \<in> set ?S" "i \<noteq> (?P, m)" for i
    proof -
      from that(1) have ih: "i \<in> set held" and nm: "\<not> isMutex (fst i)"
        and ngl: "fst i \<noteq> resourceIdGlobal"
        unfolding setS by simp_all
      from key [OF ih] that(2) have "fst i \<noteq> ?P" by blast
      with low ih nm ngl show ?thesis by blast
    qed
    from pS obtain h T where hT: "?S = h # T" by (cases ?S) auto
    have srt: "sorted (map ?F (h # T))"
      unfolding hT [symmetric] by (rule sorted_sort_key)
    have hp: "h = (?P, m)"
    proof (rule ccontr)
      assume n: "h \<noteq> (?P, m)"
      with pS hT have "(?P, m) \<in> set T" by simp
      with srt have "?F h \<le> ?F (?P, m)" by auto
      moreover from less [of h] n hT have "fullHash ?P < ?F h" by simp
      ultimately show False by simp
    qed
    from dS hT hp have "?P \<notin> fst ` set T" by simp
    then have "\<forall>i\<in>set T. fst i \<noteq> ?P" by force
    then have fT: "filter (\<lambda>i. fst i \<noteq> ?P) T = T"
      by (simp add: filter_id_conv)
    have "filter (\<lambda>i. fst i \<noteq> ?P) ?S = T"
      unfolding hT using hp fT by simp
    moreover have "restoreOrder state = (?P, m) # (resourceIdGlobal, globalMode state) # T"
      unfolding restoreOrder_def ls hT using hp by simp
    ultimately show ?thesis
      using p1 g1 rest by (simp add: reacquired_def)
  qed
qed

text \<open>
  Claim C3, amended. For every locker (its requests keyed by distinct resources): if
  \<open>saveLockStateAndUnlock\<close> returns true, then afterwards the locker holds exactly its
  mutex locks; the snapshot records the mode of the global lock and, sorted in ascending
  resource id order, exactly the other non-mutex (resource, mode) pairs held before; a
  \<open>restoreLockState\<close> on that snapshot that returns has asked the lock manager for
  exactly those locks and holds each of them granted in the mode saved, and the locker
  then holds the set of locks it held before the save, granted if they were. The order
  of reacquisition, for an order of the resource ids in which the
  parallel-batch-writer-mode resource is lowest, is: the parallel-batch-writer-mode lock
  first if it was held, then the global lock, then the rest in ascending order. The
  restore does return, also under contention: when each of these locks is granted at
  once or at some wakeup of the wait for it, and the pool of the global mode has a
  ticket.
\<close>

theorem save_restore_roundtrip:
  assumes save: "saveLockStateAndUnlock fullHash (ticketHolders env) l = Done (True, state, l')"
    and dist: "distinct (map fst (requests l))"
  shows "heldLocks l' = filter (\<lambda>info. isMutex (fst info)) (heldLocks l)
    \<and> globalMode state = getLockMode l resourceIdGlobal
    \<and> locks state =
        sort_key (\<lambda>info. fullHash (fst info))
          (filter (\<lambda>info. \<not> isMutex (fst info) \<and> fst info \<noteq> resourceIdGlobal) (heldLocks l))
    \<and> sorted (map (\<lambda>info. fullHash (fst info)) (locks state))
    \<and> (restoreLockState env l' state = Done l'' \<longrightarrow>
          acquisitions l'' = acquisitions l' @ restoreOrder state
          \<and> grantedLocks l'' = grantedLocks l' @ restoreOrder state
          \<and> set (heldLocks l'') = set (heldLocks l)
          \<and> (allGranted l \<longrightarrow> set (grantedLocks l'') = set (grantedLocks l))
          \<and> (pbwmLowest fullHash l \<longrightarrow>
                acquisitions l'' = acquisitions l' @ reacquired fullHash (heldLocks l)
                \<and> grantedLocks l'' = grantedLocks l' @ reacquired fullHash (heldLocks l)))
    \<and> (pbwmLowest fullHash l \<longrightarrow> restoreOrder state = reacquired fullHash (heldLocks l))
    \<and> (list_all (grantedInTheEnd env) (restoreOrder state)
          \<and> ticketInTheEnd env (globalMode state)
          \<and> getLockMode l resourceIdGlobal \<noteq> MODE_NONE \<longrightarrow>
        (\<exists>l''. restoreLockState env l' state = Done l''))"
proof -
  note s = saveLockStateAndUnlock_result [OF save]
  let ?nonMutex = "filter (\<lambda>info. \<not> isMutex (fst info) \<and> fst info \<noteq> resourceIdGlobal)
                     (heldLocks l)"
  have h1: "heldLocks l' = filter (\<lambda>info. isMutex (fst info)) (heldLocks l)"
    using s(1) by (simp add: heldLocks_def filter_map comp_def)
  have h3: "locks state = sort_key (\<lambda>info. fullHash (fst info)) ?nonMutex"
    using s(3) by (simp add: heldLocks_def filter_map comp_def)
  have h4: "sorted (map (\<lambda>info. fullHash (fst info)) (locks state))"
    unfolding h3 by (rule sorted_sort_key)
  have dk: "distinct (map fst (heldLocks l))"
    using dist by (simp add: heldLocks_def comp_def)
  from s(7) obtain g where g: "map_of (requests l) resourceIdGlobal = Some g" by blast
  have gin: "(resourceIdGlobal, globalMode state) \<in> set (heldLocks l)"
    using map_of_SomeD [OF g] s(2) g
    by (force simp: heldLocks_def getLockMode_def)
  have order: "restoreOrder state = reacquired fullHash (heldLocks l)"
    if low: "pbwmLowest fullHash l"
  proof -
    from low have "\<forall>i\<in>set (heldLocks l). isMutex (fst i) \<or> fst i = resourceIdGlobal
                \<or> fst i = resourceIdParallelBatchWriterMode
                \<or> fullHash resourceIdParallelBatchWriterMode < fullHash (fst i)"
      by (auto simp: pbwmLowest_def heldLocks_def list_all_iff)
    with dk gin show ?thesis using h3 by (rule restoreOrder_reacquired)
  qed
  have restore: "acquisitions l'' = acquisitions l' @ restoreOrder state
          \<and> grantedLocks l'' = grantedLocks l' @ restoreOrder state
          \<and> set (heldLocks l'') = set (heldLocks l)
          \<and> (allGranted l \<longrightarrow> set (grantedLocks l'') = set (grantedLocks l))
          \<and> (pbwmLowest fullHash l \<longrightarrow>
                acquisitions l'' = acquisitions l' @ reacquired fullHash (heldLocks l)
                \<and> grantedLocks l'' = grantedLocks l' @ reacquired fullHash (heldLocks l))"
    if run: "restoreLockState env l' state = Done l''"
  proof -
    have d: "distinct (map fst (locks state))"
      unfolding h3 distinct_keys_sort_key using dk by (rule distinct_map_filter)
    have sl: "set (locks state) =
                {info \<in> set (heldLocks l). \<not> isMutex (fst info) \<and> fst info \<noteq> resourceIdGlobal}"
      unfolding h3 by simp
    have sm: "set (heldLocks l') = {info \<in> set (heldLocks l). isMutex (fst info)}"
      unfolding h1 by simp
    have ng: "resourceIdGlobal \<notin> fst ` set (locks state)"
      unfolding sl by force
    have kl': "fst ` set (requests l') = fst ` set (heldLocks l')"
      by (simp add: keys_heldLocks)
    have disj: "fst ` set (locks state) \<inter> fst ` set (requests l') = {}"
      unfolding kl' sl sm by force
    have ngl: "resourceIdGlobal \<notin> fst ` set (requests l')"
      unfolding kl' sm by force
    from restoreLockState_result [OF run d ng disj ngl] have
      r: "heldLocks l'' = heldLocks l' @ restoreOrder state"
         "acquisitions l'' = acquisitions l' @ restoreOrder state"
         "grantedLocks l'' = grantedLocks l' @ restoreOrder state"
      by simp_all
    have ro: "set (restoreOrder state)
                = insert (resourceIdGlobal, globalMode state) (set (locks state))"
      by (auto simp: restoreOrder_def split: list.splits)
    have gonly: "m' = globalMode state" if "(resourceIdGlobal, m') \<in> set (heldLocks l)" for m'
    proof -
      from that dk have "map_of (heldLocks l) resourceIdGlobal = Some m'"
        by (simp add: map_of_is_SomeI)
      moreover from gin dk have
        "map_of (heldLocks l) resourceIdGlobal = Some (globalMode state)"
        by (simp add: map_of_is_SomeI)
      ultimately show ?thesis by simp
    qed
    have "set (heldLocks l'') =
            set (heldLocks l') \<union> insert (resourceIdGlobal, globalMode state) (set (locks state))"
      unfolding r(1) by (simp add: ro)
    also have "\<dots> = set (heldLocks l)"
    proof (rule set_eqI)
      fix info :: OneLock
      obtain a b where ab: "info = (a, b)" by (cases info)
      show "info \<in> set (heldLocks l') \<union>
                    insert (resourceIdGlobal, globalMode state) (set (locks state))
              \<longleftrightarrow> info \<in> set (heldLocks l)"
      proof (cases "a = resourceIdGlobal")
        case True
        with ab gin gonly [of b] show ?thesis
          unfolding sl sm by auto
      next
        case False
        with ab show ?thesis
          unfolding sl sm by auto
      qed
    qed
    finally have hs: "set (heldLocks l'') = set (heldLocks l)" .
    have gs: "set (grantedLocks l'') = set (grantedLocks l)" if ag: "allGranted l"
    proof -
      from ag have f1: "filter (\<lambda>e. status (snd e) = STATUS_GRANTED) (requests l) = requests l"
        by (simp add: allGranted_def list_all_iff)
      then have a1: "grantedLocks l = heldLocks l"
        by (simp add: grantedLocks_def heldLocks_def)
      from ag s(1) have "\<forall>e\<in>set (requests l'). status (snd e) = STATUS_GRANTED"
        by (simp add: allGranted_def list_all_iff)
      then have
        "filter (\<lambda>e. status (snd e) = STATUS_GRANTED) (requests l') = requests l'"
        by (simp only: filter_id_conv)
      then have a2: "grantedLocks l' = heldLocks l'"
        by (simp add: grantedLocks_def heldLocks_def)
      from r(1,3) a2 have "grantedLocks l'' = heldLocks l''" by simp
      with hs a1 show ?thesis by simp
    qed
    from r(2,3) hs gs order show ?thesis by simp
  qed
  have returns: "\<exists>l''. restoreLockState env l' state = Done l''"
    if a: "list_all (grantedInTheEnd env) (restoreOrder state)
          \<and> ticketInTheEnd env (globalMode state)
          \<and> getLockMode l resourceIdGlobal \<noteq> MODE_NONE"
  proof -
    have lev: "\<not> wuowNestingLevel l' > 0" using s(5,6) by simp
    from a s(2) have gm: "globalMode state \<noteq> MODE_NONE" by simp
    from a restoreLockState_returns [OF _ _ s(4) lev gm] show ?thesis by blast
  qed
  from h1 s(2) h3 h4 restore order returns show ?thesis by blast
qed

lemmas save_eval =
  saveLockStateAndUnlock_def readingLocker_def grantedRequest_def inAWriteUnitOfWork_def
  unlock_def unlockImpl_def lockManager_unlock_def bindRun_def Let_def resourceIdGlobal_def
  resourceIdParallelBatchWriterMode_def isSharedLockMode_def isLocked_def getLockMode_def
  grantingEnv_def sampleLockEnv_def setGlobalThrottling_def initialTicketHolders_def
  record_call_def heldLocks_def isMutex_def

text \<open>
  Claim C3 as stated leaves the locker without locks after a successful save. The loop
  skips mutex resources: a locker that holds a mutex besides its read locks still holds
  the mutex afterwards.
\<close>

theorem save_keeps_mutex_counterexample:
  "\<exists>state l'. saveLockStateAndUnlock sampleFullHash (ticketHolders grantingEnv) readingLocker
                 = Done (True, state, l')
     \<and> heldLocks l' = [(ResourceId RESOURCE_MUTEX (NameHash ''m''), MODE_X)]"
  by (simp add: save_eval)

theorem save_restore_roundtrip_witness:
  "distinct (map fst (requests readingLocker))
   \<and> pbwmLowest sampleFullHash readingLocker
   \<and> allGranted readingLocker
   \<and> \<not> lockManagerGrants contendedEnv (ResourceId RESOURCE_DATABASE (NameHash ''db'')) MODE_IS
   \<and> (\<exists>state l' l'' k''.
         saveLockStateAndUnlock sampleFullHash (ticketHolders grantingEnv) readingLocker
           = Done (True, state, l')
         \<and> saveLockStateAndUnlock sampleFullHash (ticketHolders contendedEnv) readingLocker
           = Done (True, state, l')
         \<and> globalMode state = MODE_IS
         \<and> locks state =
             [(resourceIdParallelBatchWriterMode, MODE_IS),
              (ResourceId RESOURCE_DATABASE (NameHash ''db''), MODE_IS),
              (ResourceId RESOURCE_COLLECTION (NameHash ''db.c''), MODE_IS)]
         \<and> restoreLockState grantingEnv l' state = Done l''
         \<and> acquisitions l'' = acquisitions l' @
             [(resourceIdParallelBatchWriterMode, MODE_IS),
              (resourceIdGlobal, MODE_IS),
              (ResourceId RESOURCE_DATABASE (NameHash ''db''), MODE_IS),
              (ResourceId RESOURCE_COLLECTION (NameHash ''db.c''), MODE_IS)]
         \<and> set (heldLocks l'') = set (heldLocks readingLocker)
         \<and> set (grantedLocks l'') = set (grantedLocks readingLocker)
         \<and> restoreLockState contendedEnv l' state = Done k''
         \<and> acquisitions k'' = acquisitions l' @
             [(resourceIdParallelBatchWriterMode, MODE_IS),
              (resourceIdGlobal, MODE_IS),
              (ResourceId RESOURCE_DATABASE (NameHash ''db''), MODE_IS),
              (ResourceId RESOURCE_COLLECTION (NameHash ''db.c''), MODE_IS)]
         \<and> grantedLocks k'' = grantedLocks l' @
             [(resourceIdParallelBatchWriterMode, MODE_IS),
              (resourceIdGlobal, MODE_IS),
              (ResourceId RESOURCE_DATABASE (NameHash ''db''), MODE_IS),
              (ResourceId RESOURCE_COLLECTION (NameHash ''db.c''), MODE_IS)]
         \<and> set (grantedLocks k'') = set (grantedLocks readingLocker))"
proof -
  let ?D = "ResourceId RESOURCE_DATABASE (NameHash ''db'')"
  let ?C = "ResourceId RESOURCE_COLLECTION (NameHash ''db.c'')"
  let ?order = "[(resourceIdParallelBatchWriterMode, MODE_IS), (resourceIdGlobal, MODE_IS),
                 (?D, MODE_IS), (?C, MODE_IS)]"
  have dist: "distinct (map fst (requests readingLocker))"
    by (simp add: readingLocker_def resourceIdGlobal_def
        resourceIdParallelBatchWriterMode_def)
  have low: "pbwmLowest sampleFullHash readingLocker"
    by (simp add: pbwmLowest_def readingLocker_def resourceIdGlobal_def
        resourceIdParallelBatchWriterMode_def isMutex_def)
  have ag: "allGranted readingLocker"
    by (simp add: allGranted_def readingLocker_def grantedRequest_def)
  have ngr: "\<not> lockManagerGrants contendedEnv ?D MODE_IS"
    by (simp add: contendedEnv_def)
  have th: "ticketHolders contendedEnv = ticketHolders grantingEnv"
    by (simp add: contendedEnv_def)
  have "\<exists>state l'. saveLockStateAndUnlock sampleFullHash (ticketHolders grantingEnv)
                     readingLocker = Done (True, state, l')"
    by (simp add: save_eval)
  then obtain state l' where
    save: "saveLockStateAndUnlock sampleFullHash (ticketHolders grantingEnv) readingLocker
             = Done (True, state, l')"
    by blast
  from save th have
    save2: "saveLockStateAndUnlock sampleFullHash (ticketHolders contendedEnv) readingLocker
             = Done (True, state, l')"
    by simp
  have gl: "getLockMode readingLocker resourceIdGlobal = MODE_IS"
    by (simp add: getLockMode_def readingLocker_def grantedRequest_def resourceIdGlobal_def)
  from save_restore_roundtrip [OF save dist] have
    f: "globalMode state = getLockMode readingLocker resourceIdGlobal"
       "locks state =
          sort_key (\<lambda>info. sampleFullHash (fst info))
            (filter (\<lambda>info. \<not> isMutex (fst info) \<and> fst info \<noteq> resourceIdGlobal)
               (heldLocks readingLocker))"
    by blast+
  have g: "globalMode state = MODE_IS"
    unfolding f(1) by (rule gl)
  have k: "locks state = [(resourceIdParallelBatchWriterMode, MODE_IS), (?D, MODE_IS),
                          (?C, MODE_IS)]"
    unfolding f(2)
    by (simp add: heldLocks_def readingLocker_def grantedRequest_def isMutex_def
        resourceIdGlobal_def resourceIdParallelBatchWriterMode_def)
  have o: "restoreOrder state = ?order"
    by (simp add: restoreOrder_def k g)
  have e1: "list_all (grantedInTheEnd grantingEnv) (restoreOrder state)
            \<and> ticketInTheEnd grantingEnv (globalMode state)
            \<and> getLockMode readingLocker resourceIdGlobal \<noteq> MODE_NONE"
    unfolding o g gl
    by (simp add: grantedInTheEnd_def ticketInTheEnd_def grantingEnv_def sampleLockEnv_def
        setGlobalThrottling_def)
  have e2: "list_all (grantedInTheEnd contendedEnv) (restoreOrder state)
            \<and> ticketInTheEnd contendedEnv (globalMode state)
            \<and> getLockMode readingLocker resourceIdGlobal \<noteq> MODE_NONE"
    unfolding o g gl
    by (simp add: grantedInTheEnd_def ticketInTheEnd_def contendedEnv_def grantingEnv_def
        sampleLockEnv_def setGlobalThrottling_def resourceIdGlobal_def
        resourceIdParallelBatchWriterMode_def)
  from save_restore_roundtrip [OF save dist] e1 obtain l'' where
    run: "restoreLockState grantingEnv l' state = Done l''"
    by blast
  from save_restore_roundtrip [OF save2 dist] e2 obtain k'' where
    run2: "restoreLockState contendedEnv l' state = Done k''"
    by blast
  from save_restore_roundtrip [OF save dist, of l''] run ag have
    r1: "acquisitions l'' = acquisitions l' @ restoreOrder state"
        "set (heldLocks l'') = set (heldLocks readingLocker)"
        "set (grantedLocks l'') = set (grantedLocks readingLocker)"
    by blast+
  from save_restore_roundtrip [OF save2 dist, of k''] run2 ag have
    r2: "acquisitions k'' = acquisitions l' @ restoreOrder state"
        "grantedLocks k'' = grantedLocks l' @ restoreOrder state"
        "set (grantedLocks k'') = set (grantedLocks readingLocker)"
    by blast+
  from dist low ag ngr save save2 g k run run2 r1 [unfolded o] r2 [unfolded o]
  show ?thesis by blast
qed

end
